theory Spec2Isabelle
  imports Main "HOL-Library.AList" "HOL-Library.Sublist" "HOL-Library.Multiset"
begin

section \<open>Release tracker: a shallow embedding of \<open>bot.py\<close>\<close>

text \<open>
  The development follows the source file from top to bottom: the stored data
  (\<open>get_guild_data\<close>), the MangaDex helpers (\<open>parse_iso\<close>,
  \<open>fetch_latest_for_series\<close>), the background task (\<open>check_releases\<close>) and the
  commands (\<open>extract_mangadex_id\<close>, \<open>track_series\<close>). Python strings are
  \<open>string\<close>, one \<open>char\<close> standing for one code point; Python integers are
  \<open>int\<close>; a \<open>dict\<close> is an association list in insertion order; an exception is a
  value of \<open>error\<close>.
\<close>

subsection \<open>Strings\<close>

text \<open>\<open>s.strip(c)\<close> for a single character \<open>c\<close>.\<close>

definition strip_char :: "char \<Rightarrow> string \<Rightarrow> string" where
  "strip_char c s = rev (dropWhile (\<lambda>x. x = c) (rev (dropWhile (\<lambda>x. x = c) s)))"

text \<open>\<open>s.split(c)\<close> for a single character \<open>c\<close>: never empty, \<open>''''.split(c) = ['''']\<close>.\<close>

fun split_sep :: "char \<Rightarrow> string \<Rightarrow> string list" where
  "split_sep c [] = [[]]"
| "split_sep c (x # xs) =
     (if x = c then [] # split_sep c xs
      else (case split_sep c xs of
              [] \<Rightarrow> [[x]]
            | p # ps \<Rightarrow> (x # p) # ps))"

text \<open>\<open>s.endswith(t)\<close>.\<close>

definition endswith :: "string \<Rightarrow> string \<Rightarrow> bool" where
  "endswith s t = suffix t s"

text \<open>Decimal rendering of an integer, \<open>str(n)\<close>.\<close>

definition digit_char :: "nat \<Rightarrow> char" where
  "digit_char d = char_of (48 + d)"

fun str_nat :: "nat \<Rightarrow> string" where
  "str_nat n = (if n < 10 then [digit_char n] else str_nat (n div 10) @ [digit_char (n mod 10)])"

declare str_nat.simps [simp del]

definition str_int :: "int \<Rightarrow> string" where
  "str_int i = (if i < 0 then CHR ''-'' # str_nat (nat (- i)) else str_nat (nat i))"

subsection \<open>Errors and timestamps\<close>

text \<open>
  The exceptions the modelled code can raise. \<open>HTTPError\<close> stands for every failure of
  the request itself (transport, \<open>raise_for_status\<close>, decoding the body).
\<close>

datatype error = HTTPError | ValueError | TypeError | AttributeError | OSError

text \<open>
  A \<open>datetime\<close> is either naive (no offset in the text) or aware; the integer is its
  place on the time line, in a fixed unit (seconds since the epoch in the examples).
  Ordering a naive against an aware one raises \<open>TypeError\<close>.
\<close>

datatype datetime = Naive int | Aware int

fun dt_val :: "datetime \<Rightarrow> int" where
  "dt_val (Naive t) = t"
| "dt_val (Aware t) = t"

fun is_aware :: "datetime \<Rightarrow> bool" where
  "is_aware (Naive t) = False"
| "is_aware (Aware t) = True"

text \<open>\<open>a <= b\<close> on datetimes.\<close>

fun dt_le :: "datetime \<Rightarrow> datetime \<Rightarrow> error + bool" where
  "dt_le (Naive a) (Naive b) = Inr (a \<le> b)"
| "dt_le (Aware a) (Aware b) = Inr (a \<le> b)"
| "dt_le (Naive a) (Aware b) = Inl TypeError"
| "dt_le (Aware a) (Naive b) = Inl TypeError"

text \<open>
  \<open>datetime.fromisoformat\<close> belongs to the standard library; it is a parameter of the
  model, \<open>None\<close> for the texts on which it raises \<open>ValueError\<close>.
\<close>

type_synonym iso_parser = "string \<Rightarrow> datetime option"

definition parse_iso :: "iso_parser \<Rightarrow> string \<Rightarrow> error + datetime" where
  "parse_iso fromisoformat dt_str =
     (case fromisoformat (if endswith dt_str ''Z'' then butlast dt_str @ ''+00:00'' else dt_str) of
        None \<Rightarrow> Inl ValueError
      | Some d \<Rightarrow> Inr d)"

text \<open>Truth value of an \<open>Optional[str]\<close>: \<open>None\<close> and the empty string are false.\<close>

definition truthy :: "string option \<Rightarrow> bool" where
  "truthy v = (case v of None \<Rightarrow> False | Some s \<Rightarrow> s \<noteq> [])"

subsection \<open>Index client: \<open>fetch_latest_for_series\<close>\<close>

text \<open>
  One element of the \<open>data\<close> array of the response, a JSON object. The fields \<open>id\<close>,
  \<open>chapter\<close> and \<open>readableAt\<close> are strings, or \<open>None\<close> when the key is absent or \<open>null\<close>:
  \<open>get\<close> returns \<open>None\<close> in both cases. For \<open>attributes\<close> the two cases differ:
  \<open>ch.get("attributes", {})\<close> is the empty dictionary when the key is absent and \<open>None\<close>
  when the value is \<open>null\<close>, and \<open>None\<close> has no \<open>get\<close>.
\<close>

record attributes =
  attr_chapter :: "string option"
  attr_readableAt :: "string option"

datatype attributes_value = AttrAbsent | AttrNull | AttrObject attributes

record item =
  item_id :: "string option"
  item_attributes :: attributes_value

text \<open>The dictionary built for a kept chapter, keys \<open>id\<close>, \<open>chapter\<close>, \<open>url\<close>, \<open>readableAt\<close>.\<close>

record chapter_info =
  ch_id :: string
  chapter_num :: string
  url :: string
  readableAt :: string

definition readable_at :: "item \<Rightarrow> string option" where
  "readable_at ch =
     (case item_attributes ch of
        AttrObject attr \<Rightarrow> attr_readableAt attr
      | AttrAbsent \<Rightarrow> None
      | AttrNull \<Rightarrow> None)"

definition chapter_of :: "item \<Rightarrow> string \<Rightarrow> string \<Rightarrow> chapter_info" where
  "chapter_of ch i r =
     \<lparr>ch_id = i,
      chapter_num =
        (case item_attributes ch of
           AttrObject attr \<Rightarrow>
             (case attr_chapter attr of
                None \<Rightarrow> ''?''
              | Some n \<Rightarrow> (if n = [] then ''?'' else n))
         | AttrAbsent \<Rightarrow> ''?''
         | AttrNull \<Rightarrow> ''?''),
      url = ''https://mangadex.org/chapter/'' @ i,
      readableAt = r\<rparr>"

text \<open>
  The body of the loop over the items: \<open>Inr None\<close> is \<open>continue\<close>, \<open>Inr (Some c)\<close> appends
  \<open>c\<close>, \<open>Inl e\<close> raises. \<open>attr.get("chapter")\<close> comes before the test of \<open>ch_id\<close> and
  \<open>readable_at\<close>, so a \<open>null\<close> \<open>attributes\<close> raises \<open>AttributeError\<close> whatever the other
  fields are; \<open>scan_fields\<close> is the rest of the body.
\<close>

definition scan_fields ::
  "iso_parser \<Rightarrow> datetime option \<Rightarrow> item \<Rightarrow> error + chapter_info option" where
  "scan_fields fi since_dt ch =
     (case (item_id ch, readable_at ch) of
        (Some i, Some r) \<Rightarrow>
          (if i = [] \<or> r = [] then Inr None
           else (case parse_iso fi r of
                   Inl e \<Rightarrow> Inl e
                 | Inr ch_dt \<Rightarrow>
                     (case since_dt of
                        None \<Rightarrow> Inr (Some (chapter_of ch i r))
                      | Some s \<Rightarrow>
                          (case dt_le ch_dt s of
                             Inl e \<Rightarrow> Inl e
                           | Inr True \<Rightarrow> Inr None
                           | Inr False \<Rightarrow> Inr (Some (chapter_of ch i r))))))
      | _ \<Rightarrow> Inr None)"

definition scan_item :: "iso_parser \<Rightarrow> datetime option \<Rightarrow> item \<Rightarrow> error + chapter_info option" where
  "scan_item fi since_dt ch =
     (case item_attributes ch of
        AttrNull \<Rightarrow> Inl AttributeError
      | AttrAbsent \<Rightarrow> scan_fields fi since_dt ch
      | AttrObject attr \<Rightarrow> scan_fields fi since_dt ch)"

fun collect :: "iso_parser \<Rightarrow> datetime option \<Rightarrow> item list \<Rightarrow> error + chapter_info list" where
  "collect fi since_dt [] = Inr []"
| "collect fi since_dt (ch # items) =
     (case scan_item fi since_dt ch of
        Inl e \<Rightarrow> Inl e
      | Inr r \<Rightarrow>
          (case collect fi since_dt items of
             Inl e \<Rightarrow> Inl e
           | Inr chapters \<Rightarrow> Inr (case r of None \<Rightarrow> chapters | Some c \<Rightarrow> c # chapters)))"

text \<open>
  \<open>chapters.sort(key=lambda x: parse_iso(x["readableAt"]))\<close>: the keys are computed
  first, then compared; the sort is stable. A list holding both a naive and an aware key
  cannot be ordered without comparing one against the other, which raises.
\<close>

definition sort_val :: "iso_parser \<Rightarrow> chapter_info \<Rightarrow> int" where
  "sort_val fi x = (case parse_iso fi (readableAt x) of Inr d \<Rightarrow> dt_val d | Inl e \<Rightarrow> 0)"

definition aware_key :: "iso_parser \<Rightarrow> chapter_info \<Rightarrow> bool" where
  "aware_key fi x = (case parse_iso fi (readableAt x) of Inr d \<Rightarrow> is_aware d | Inl e \<Rightarrow> False)"

definition sort_chapters :: "iso_parser \<Rightarrow> chapter_info list \<Rightarrow> error + chapter_info list" where
  "sort_chapters fi chapters =
     (if \<exists>x \<in> set chapters. isl (parse_iso fi (readableAt x)) then Inl ValueError
      else if (\<exists>x \<in> set chapters. aware_key fi x) \<and> (\<exists>x \<in> set chapters. \<not> aware_key fi x)
      then Inl TypeError
      else Inr (sort_key (sort_val fi) chapters))"

text \<open>
  The session is the function from the requested \<open>manga\<close> parameter to the decoded
  \<open>data\<close> array, or to the exception of the request. \<open>since_ts\<close> is not sent to the
  index; the filter is applied to the response.
\<close>

type_synonym session = "string \<Rightarrow> error + item list"

definition since_dt_of :: "iso_parser \<Rightarrow> string option \<Rightarrow> error + datetime option" where
  "since_dt_of fi since_ts =
     (case since_ts of
        None \<Rightarrow> Inr None
      | Some s \<Rightarrow>
          (if s = [] then Inr None
           else (case parse_iso fi s of Inl e \<Rightarrow> Inl e | Inr d \<Rightarrow> Inr (Some d))))"

definition fetch_latest_for_series ::
  "iso_parser \<Rightarrow> session \<Rightarrow> string \<Rightarrow> string option \<Rightarrow> error + chapter_info list" where
  "fetch_latest_for_series fi session manga_id since_ts =
     (case session manga_id of
        Inl e \<Rightarrow> Inl e
      | Inr items \<Rightarrow>
          (case since_dt_of fi since_ts of
             Inl e \<Rightarrow> Inl e
           | Inr since_dt \<Rightarrow>
               (case collect fi since_dt items of
                  Inl e \<Rightarrow> Inl e
                | Inr chapters \<Rightarrow> sort_chapters fi chapters)))"

subsection \<open>Stored data\<close>

text \<open>
  The record of one tracked series, keys \<open>name\<close>, \<open>last_seen_ts\<close>, \<open>role_id\<close>
  (\<open>role_id = None\<close>: the key is absent), and of one guild, keys
  \<open>announce_channel_id\<close> and \<open>tracked_series\<close>. \<open>data\<close> is \<open>data["guilds"]\<close>, keyed by
  \<open>str(guild_id)\<close>. A dictionary keeps its keys in insertion order: assigning to a key
  that is present replaces the value in place, assigning to a new key appends
  (\<open>AList.update\<close>).
\<close>

record sdata =
  name :: string
  last_seen_ts :: "string option"
  role_id :: "int option"

record gdata =
  announce_channel_id :: "int option"
  tracked_series :: "(string \<times> sdata) list"

type_synonym data = "(string \<times> gdata) list"

definition get_guild_data :: "int \<Rightarrow> data \<Rightarrow> gdata \<times> data" where
  "get_guild_data guild_id d =
     (let gid = str_int guild_id in
      case map_of d gid of
        Some g \<Rightarrow> (g, d)
      | None \<Rightarrow>
          (let g = \<lparr>announce_channel_id = None, tracked_series = []\<rparr>
           in (g, AList.update gid g d)))"

text \<open>
  \<open>sdata["last_seen_ts"] = ...; gdata["tracked_series"][series_id] = sdata\<close>, on the
  objects held in \<open>data\<close>.
\<close>

definition store_sdata :: "string \<Rightarrow> string \<Rightarrow> sdata \<Rightarrow> data \<Rightarrow> data" where
  "store_sdata gid series_id sd d =
     AList.map_entry gid
       (\<lambda>g. g\<lparr>tracked_series := AList.update series_id sd (tracked_series g)\<rparr>) d"

subsection \<open>Storage: \<open>save_data\<close> and \<open>load_data\<close>\<close>

text \<open>
  The values \<open>json.dump\<close> is given and \<open>json.load\<close> returns: \<open>None\<close>, integers, strings
  and dictionaries, whose keys may be strings or integers. The file holds a JSON
  document; how the library writes a document as text and reads the text back is not
  part of the program and is not modelled. \<open>json_dump\<close> turns every key into a string,
  \<open>json_load\<close> builds each dictionary by assigning the members in order, so that the last
  of two equal names wins.
\<close>

datatype pykey = KStr string | KInt int

datatype pyval = PNone | PInt int | PStr string | PDict "(pykey \<times> pyval) list"

datatype json = JNull | JNum int | JString string | JObject "(string \<times> json) list"

fun key_str :: "pykey \<Rightarrow> string" where
  "key_str (KStr s) = s"
| "key_str (KInt i) = str_int i"

fun json_dump :: "pyval \<Rightarrow> json" where
  "json_dump PNone = JNull"
| "json_dump (PInt i) = JNum i"
| "json_dump (PStr s) = JString s"
| "json_dump (PDict kvs) = JObject (map (\<lambda>kv. (key_str (fst kv), json_dump (snd kv))) kvs)"

definition dict_of :: "('k \<times> 'v) list \<Rightarrow> ('k \<times> 'v) list" where
  "dict_of kvs = foldl (\<lambda>d kv. AList.update (fst kv) (snd kv) d) [] kvs"

fun json_load :: "json \<Rightarrow> pyval" where
  "json_load JNull = PNone"
| "json_load (JNum i) = PInt i"
| "json_load (JString s) = PStr s"
| "json_load (JObject kvs) = PDict (dict_of (map (\<lambda>kv. (KStr (fst kv), json_load (snd kv))) kvs))"

text \<open>The dictionaries the program builds, as Python values.\<close>

definition py_opt_int :: "int option \<Rightarrow> pyval" where
  "py_opt_int v = (case v of None \<Rightarrow> PNone | Some i \<Rightarrow> PInt i)"

definition py_opt_str :: "string option \<Rightarrow> pyval" where
  "py_opt_str v = (case v of None \<Rightarrow> PNone | Some s \<Rightarrow> PStr s)"

definition py_sdata :: "sdata \<Rightarrow> pyval" where
  "py_sdata sd =
     PDict ([(KStr ''name'', PStr (name sd)), (KStr ''last_seen_ts'', py_opt_str (last_seen_ts sd))]
            @ (case role_id sd of None \<Rightarrow> [] | Some r \<Rightarrow> [(KStr ''role_id'', PInt r)]))"

definition py_gdata :: "gdata \<Rightarrow> pyval" where
  "py_gdata g =
     PDict [(KStr ''announce_channel_id'', py_opt_int (announce_channel_id g)),
            (KStr ''tracked_series'',
             PDict (map (\<lambda>kv. (KStr (fst kv), py_sdata (snd kv))) (tracked_series g)))]"

definition py_data :: "data \<Rightarrow> pyval" where
  "py_data d = PDict [(KStr ''guilds'', PDict (map (\<lambda>kv. (KStr (fst kv), py_gdata (snd kv))) d))]"

text \<open>
  The data file: absent, holding a document, or cut short by a write that failed after
  \<open>open(..., "w")\<close> had emptied it.
\<close>

datatype data_file = Missing | Stored json | Truncated

datatype save_result = WriteOk | OpenFailed | WriteFailed

definition load_data :: "data_file \<Rightarrow> error + pyval" where
  "load_data f =
     (case f of
        Missing \<Rightarrow> Inr (PDict [(KStr ''guilds'', PDict [])])
      | Stored j \<Rightarrow> Inr (json_load j)
      | Truncated \<Rightarrow> Inl ValueError)"

text \<open>
  The state of the process: the global \<open>data\<close>, the data file, and the messages
  delivered so far to announcement channels (channel id and text).
\<close>

record world =
  mem :: data
  disk :: data_file
  sent :: "(int \<times> string) list"

definition save_data :: "save_result \<Rightarrow> world \<Rightarrow> world \<times> error option" where
  "save_data r w =
     (case r of
        WriteOk \<Rightarrow> (w\<lparr>disk := Stored (json_dump (py_data (mem w)))\<rparr>, None)
      | OpenFailed \<Rightarrow> (w, Some OSError)
      | WriteFailed \<Rightarrow> (w\<lparr>disk := Truncated\<rparr>, Some OSError))"

subsection \<open>Background task: \<open>check_releases\<close>\<close>

text \<open>
  What the outside world does during one run of the task: the guilds the bot is in, the
  channel cache and the channel lookup, the response of the index to the request made
  for a series in a guild, the result of the \<open>i\<close>-th \<open>channel.send\<close> of a series in a
  guild, and the result of each write of the data file (the write after priming a
  series, or the write that ends a guild).
\<close>

datatype send_result = Delivered | Forbidden | Failed

record env =
  bot_guilds :: "int list"
  get_channel :: "int \<Rightarrow> bool"
  fetch_channel :: "int \<Rightarrow> bool"
  http :: "string \<Rightarrow> session"
  channel_send :: "string \<Rightarrow> string \<Rightarrow> nat \<Rightarrow> send_result"
  write_file :: "string \<Rightarrow> string option \<Rightarrow> save_result"

definition render_msg :: "sdata \<Rightarrow> chapter_info \<Rightarrow> string" where
  "render_msg sd ch =
     (let role_mention =
            (case role_id sd of
               None \<Rightarrow> []
             | Some r \<Rightarrow> (if r = 0 then [] else ''<@&'' @ str_int r @ ''>''))
      in role_mention @ '' New chapter released!'' @ [CHR 0x0A]
         @ ''**'' @ name sd @ ''** - Chapter '' @ chapter_num ch @ [CHR 0x0A]
         @ ''Link: '' @ url ch)"

text \<open>
  The loop over the new chapters: the messages delivered and the value of
  \<open>latest_ts_for_series\<close> when the loop ends; a failed send breaks out of it.
\<close>

fun send_loop ::
  "(nat \<Rightarrow> send_result) \<Rightarrow> int \<Rightarrow> sdata \<Rightarrow> nat \<Rightarrow> chapter_info list \<Rightarrow> string option
   \<Rightarrow> (int \<times> string) list \<times> string option" where
  "send_loop send channel sd i [] latest_ts = ([], latest_ts)"
| "send_loop send channel sd i (ch # rest) latest_ts =
     (case send i of
        Delivered \<Rightarrow>
          (let r = send_loop send channel sd (Suc i) rest (Some (readableAt ch))
           in ((channel, render_msg sd ch) # fst r, snd r))
      | Forbidden \<Rightarrow> ([], latest_ts)
      | Failed \<Rightarrow> ([], latest_ts))"

text \<open>The body of the loop over the tracked series of one guild.\<close>

definition process_series ::
  "iso_parser \<Rightarrow> env \<Rightarrow> string \<Rightarrow> int \<Rightarrow> string \<Rightarrow> sdata \<Rightarrow> world \<Rightarrow> world \<times> error option" where
  "process_series fi e gid channel series_id sd w =
     (if \<not> truthy (last_seen_ts sd) then
        (case fetch_latest_for_series fi (http e gid) series_id None of
           Inl ex \<Rightarrow> (w, None)
         | Inr all_recent \<Rightarrow>
             (if all_recent \<noteq> [] then
                (let latest = last all_recent;
                     sd' = sd\<lparr>last_seen_ts := Some (readableAt latest)\<rparr>
                 in save_data (write_file e gid (Some series_id))
                      (w\<lparr>mem := store_sdata gid series_id sd' (mem w)\<rparr>))
              else (w, None)))
      else
        (case fetch_latest_for_series fi (http e gid) series_id (last_seen_ts sd) of
           Inl ex \<Rightarrow> (w, None)
         | Inr new_chapters \<Rightarrow>
             (if new_chapters = [] then (w, None)
              else
                (let r = send_loop (channel_send e gid series_id) channel sd 0 new_chapters
                           (last_seen_ts sd);
                     w' = w\<lparr>sent := sent w @ fst r\<rparr>
                 in (if truthy (snd r)
                     then (w'\<lparr>mem := store_sdata gid series_id (sd\<lparr>last_seen_ts := snd r\<rparr>) (mem w')\<rparr>,
                           None)
                     else (w', None))))))"

fun series_loop ::
  "iso_parser \<Rightarrow> env \<Rightarrow> string \<Rightarrow> int \<Rightarrow> (string \<times> sdata) list \<Rightarrow> world \<Rightarrow> world \<times> error option" where
  "series_loop fi e gid channel [] w = (w, None)"
| "series_loop fi e gid channel (kv # rest) w =
     (case process_series fi e gid channel (fst kv) (snd kv) w of
        (w', Some ex) \<Rightarrow> (w', Some ex)
      | (w', None) \<Rightarrow> series_loop fi e gid channel rest w')"

text \<open>The body of the loop over the guilds.\<close>

definition check_guild :: "iso_parser \<Rightarrow> env \<Rightarrow> int \<Rightarrow> world \<Rightarrow> world \<times> error option" where
  "check_guild fi e guild_id w =
     (let gd = get_guild_data guild_id (mem w);
          g = fst gd;
          w1 = w\<lparr>mem := snd gd\<rparr>
      in case announce_channel_id g of
           None \<Rightarrow> (w1, None)
         | Some channel_id \<Rightarrow>
             (if channel_id = 0 then (w1, None)
              else if \<not> get_channel e channel_id \<and> \<not> fetch_channel e channel_id then (w1, None)
              else if tracked_series g = [] then (w1, None)
              else
                (case series_loop fi e (str_int guild_id) channel_id (tracked_series g) w1 of
                   (w2, Some ex) \<Rightarrow> (w2, Some ex)
                 | (w2, None) \<Rightarrow> save_data (write_file e (str_int guild_id) None) w2)))"

fun guild_loop :: "iso_parser \<Rightarrow> env \<Rightarrow> int list \<Rightarrow> world \<Rightarrow> world \<times> error option" where
  "guild_loop fi e [] w = (w, None)"
| "guild_loop fi e (guild_id # rest) w =
     (case check_guild fi e guild_id w of
        (w', Some ex) \<Rightarrow> (w', Some ex)
      | (w', None) \<Rightarrow> guild_loop fi e rest w')"

definition check_releases :: "iso_parser \<Rightarrow> env \<Rightarrow> world \<Rightarrow> world \<times> error option" where
  "check_releases fi e w = guild_loop fi e (bot_guilds e) w"

text \<open>
  A sequence of runs of the task, one environment for each. The process state is what
  the previous run left, whether it ended normally or by an exception.
\<close>

fun poll_cycles :: "iso_parser \<Rightarrow> env list \<Rightarrow> world \<Rightarrow> world" where
  "poll_cycles fi [] w = w"
| "poll_cycles fi (e # es) w = poll_cycles fi es (fst (check_releases fi e w))"

subsection \<open>Command boundary: \<open>extract_mangadex_id\<close>\<close>

definition id_like :: "string \<Rightarrow> bool" where
  "id_like part = (CHR ''-'' \<in> set part \<and> 8 \<le> length part)"

definition extract_mangadex_id :: "string \<Rightarrow> string" where
  "extract_mangadex_id series_arg =
     (if sublist ''mangadex.org'' series_arg then
        (case find id_like (split_sep CHR ''/'' (strip_char CHR ''/'' series_arg)) of
           Some part \<Rightarrow> part
         | None \<Rightarrow> series_arg)
      else series_arg)"

subsection \<open>Commands\<close>

text \<open>
  Each command returns the new state and either the text it sends back with
  \<open>ctx.send\<close> or the exception it ends with.
\<close>

definition set_announce_channel ::
  "save_result \<Rightarrow> int \<Rightarrow> int \<Rightarrow> string \<Rightarrow> world \<Rightarrow> world \<times> (error + string)" where
  "set_announce_channel wr guild_id channel_id mention w =
     (let gd = get_guild_data guild_id (mem w);
          d' = AList.update (str_int guild_id) ((fst gd)\<lparr>announce_channel_id := Some channel_id\<rparr>) (snd gd)
      in case save_data wr (w\<lparr>mem := d'\<rparr>) of
           (w', Some ex) \<Rightarrow> (w', Inl ex)
         | (w', None) \<Rightarrow> (w', Inr (''Announcement channel set to '' @ mention @ ''.'')))"

definition already_tracking :: "string \<Rightarrow> sdata \<Rightarrow> string" where
  "already_tracking series_id sd =
     ''Already tracking `'' @ series_id @ ''` as **'' @ name sd @ ''** with role <@&''
     @ str_int (case role_id sd of None \<Rightarrow> 0 | Some r \<Rightarrow> r) @ ''>.''"

definition track_series ::
  "save_result \<Rightarrow> int \<Rightarrow> string \<Rightarrow> int \<Rightarrow> string \<Rightarrow> string \<Rightarrow> world \<Rightarrow> world \<times> (error + string)" where
  "track_series wr guild_id series_id_or_url role role_mention nm w =
     (let series_id = extract_mangadex_id series_id_or_url;
          gd = get_guild_data guild_id (mem w);
          tracked = tracked_series (fst gd)
      in case map_of tracked series_id of
           Some sd \<Rightarrow> (w\<lparr>mem := snd gd\<rparr>, Inr (already_tracking series_id sd))
         | None \<Rightarrow>
             (let sd = \<lparr>name = nm, last_seen_ts = None, role_id = Some role\<rparr>;
                  d' = store_sdata (str_int guild_id) series_id sd (snd gd)
              in case save_data wr (w\<lparr>mem := d'\<rparr>) of
                   (w', Some ex) \<Rightarrow> (w', Inl ex)
                 | (w', None) \<Rightarrow>
                     (w', Inr (''Now tracking **'' @ nm @ ''** (MangaDex ID: `'' @ series_id
                               @ ''`), pinging role '' @ role_mention @ ''.''))))"

definition untrack_series ::
  "save_result \<Rightarrow> int \<Rightarrow> string \<Rightarrow> world \<Rightarrow> world \<times> (error + string)" where
  "untrack_series wr guild_id series_id_or_url w =
     (let series_id = extract_mangadex_id series_id_or_url;
          gd = get_guild_data guild_id (mem w);
          tracked = tracked_series (fst gd)
      in case map_of tracked series_id of
           None \<Rightarrow>
             (w\<lparr>mem := snd gd\<rparr>,
              Inr (''Series `'' @ series_id @ ''` is not currently being tracked.''))
         | Some removed \<Rightarrow>
             (let d' = AList.map_entry (str_int guild_id)
                         (\<lambda>g. g\<lparr>tracked_series := AList.delete series_id (tracked_series g)\<rparr>) (snd gd)
              in case save_data wr (w\<lparr>mem := d'\<rparr>) of
                   (w', Some ex) \<Rightarrow> (w', Inl ex)
                 | (w', None) \<Rightarrow>
                     (w', Inr (''Stopped tracking **'' @ name removed @ ''** (ID: `'' @ series_id
                               @ ''`).''))))"

subsection \<open>Notions used to state the properties\<close>

text \<open>The record of a series of a guild in \<open>data\<close>.\<close>

definition item_at :: "data \<Rightarrow> string \<Rightarrow> string \<Rightarrow> sdata option" where
  "item_at d gid series_id =
     (case map_of d gid of None \<Rightarrow> None | Some g \<Rightarrow> map_of (tracked_series g) series_id)"

text \<open>
  The chapter an item of the response stands for, when it has an identifier and a
  publish timestamp; the candidates of a response, in the order of the response.
\<close>

definition candidate :: "item \<Rightarrow> chapter_info option" where
  "candidate ch =
     (case (item_id ch, readable_at ch) of
        (Some i, Some r) \<Rightarrow> (if i = [] \<or> r = [] then None else Some (chapter_of ch i r))
      | _ \<Rightarrow> None)"

definition candidates :: "item list \<Rightarrow> chapter_info list" where
  "candidates items = List.map_filter candidate items"

text \<open>
  \<open>newer fi (Some s) c\<close>: the timestamp of \<open>c\<close> parses, can be compared with \<open>s\<close> and is
  strictly later. With no watermark every candidate counts as new.
\<close>

definition newer :: "iso_parser \<Rightarrow> datetime option \<Rightarrow> chapter_info \<Rightarrow> bool" where
  "newer fi since_dt c =
     (case since_dt of
        None \<Rightarrow> True
      | Some s \<Rightarrow> (case parse_iso fi (readableAt c) of Inl e \<Rightarrow> False | Inr d \<Rightarrow> dt_le d s = Inr False))"

text \<open>
  A parser on four timestamps, the index answering every request with the same items,
  and an item and the chapter built from it, for the examples.
\<close>

definition iso_example :: iso_parser where
  "iso_example s =
     map_of [(''2024-05-01T00:00:00+00:00'', Aware 1714521600),
             (''2024-05-02T00:00:00+00:00'', Aware 1714608000),
             (''2024-05-03T00:00:00+00:00'', Aware 1714694400),
             (''2024-05-04T00:00:00+00:00'', Aware 1714780800)] s"

definition respond :: "item list \<Rightarrow> session" where
  "respond items manga_id = Inr items"

definition mk_item :: "string \<Rightarrow> string \<Rightarrow> string \<Rightarrow> item" where
  "mk_item i n r =
     \<lparr>item_id = Some i,
      item_attributes = AttrObject \<lparr>attr_chapter = Some n, attr_readableAt = Some r\<rparr>\<rparr>"

definition mk_chapter :: "string \<Rightarrow> string \<Rightarrow> string \<Rightarrow> chapter_info" where
  "mk_chapter i n r =
     \<lparr>ch_id = i, chapter_num = n, url = ''https://mangadex.org/chapter/'' @ i, readableAt = r\<rparr>"

text \<open>
  The scenario of the examples: guild \<open>1\<close> announces in channel \<open>5\<close> and tracks \<open>S1\<close>; the
  index lists chapter 10 of 2 May and chapter 11 of 3 May; the first send of a batch is
  delivered, the second is refused.
\<close>

definition example_env :: env where
  "example_env =
     \<lparr>bot_guilds = [1],
      get_channel = (\<lambda>channel_id. True),
      fetch_channel = (\<lambda>channel_id. True),
      http = (\<lambda>gid. respond [mk_item ''a'' ''10'' ''2024-05-02T00:00:00Z'',
                               mk_item ''b'' ''11'' ''2024-05-03T00:00:00Z'']),
      channel_send = (\<lambda>gid series_id i. if i = 0 then Delivered else Forbidden),
      write_file = (\<lambda>gid series_id. WriteOk)\<rparr>"

definition example_sdata :: "string option \<Rightarrow> sdata" where
  "example_sdata ts = \<lparr>name = ''S1'', last_seen_ts = ts, role_id = Some 9\<rparr>"

definition example_world :: "string option \<Rightarrow> world" where
  "example_world ts =
     \<lparr>mem = [(''1'', \<lparr>announce_channel_id = Some 5, tracked_series = [(''S1'', example_sdata ts)]\<rparr>)],
      disk = Missing, sent = []\<rparr>"

text \<open>
  \<open>wm_le fi a b\<close>: the watermark \<open>b\<close> is not earlier than the watermark \<open>a\<close>. Either \<open>a\<close> is
  no watermark yet (\<open>None\<close> or empty), or the two are the same text, or \<open>b\<close> is a
  watermark and both parse to times that can be compared, the time of \<open>a\<close> not after the
  time of \<open>b\<close>.
\<close>

definition wm_le :: "iso_parser \<Rightarrow> string option \<Rightarrow> string option \<Rightarrow> bool" where
  "wm_le fi a b =
     (\<not> truthy a \<or> a = b \<or>
      (truthy b \<and>
       (case (a, b) of
          (Some x, Some y) \<Rightarrow>
            (case (parse_iso fi x, parse_iso fi y) of
               (Inr dx, Inr dy) \<Rightarrow> dt_le dx dy = Inr True
             | _ \<Rightarrow> False)
        | _ \<Rightarrow> False)))"

text \<open>The keys of every dictionary of \<open>data\<close> are distinct, as the keys of a \<open>dict\<close> are.\<close>

definition wf_data :: "data \<Rightarrow> bool" where
  "wf_data d =
     (distinct (map fst d) \<and> (\<forall>kv \<in> set d. distinct (map fst (tracked_series (snd kv)))))"

text \<open>Every series recorded in \<open>d\<close> is recorded in \<open>d'\<close>, with a watermark that is not earlier.\<close>

definition advances :: "iso_parser \<Rightarrow> data \<Rightarrow> data \<Rightarrow> bool" where
  "advances fi d d' =
     (\<forall>gid series_id sd. item_at d gid series_id = Some sd \<longrightarrow>
        (\<exists>sd'. item_at d' gid series_id = Some sd'
                \<and> wm_le fi (last_seen_ts sd) (last_seen_ts sd')))"

text \<open>
  The values that \<open>json_dump\<close> followed by \<open>json_load\<close> gives back unchanged: every
  dictionary in them has string keys, no two of them equal.
\<close>

fun json_clean :: "pyval \<Rightarrow> bool" where
  "json_clean (PDict kvs) =
     (distinct (map fst kvs)
      \<and> (\<forall>kv \<in> set kvs. (case fst kv of KStr s \<Rightarrow> True | KInt i \<Rightarrow> False) \<and> json_clean (snd kv)))"
| "json_clean PNone = True"
| "json_clean (PInt i) = True"
| "json_clean (PStr s) = True"

text \<open>
  A second scenario: guilds \<open>1\<close> and \<open>2\<close> both track \<open>S1\<close>, and every write made while guild
  \<open>1\<close> is processed has the given result.
\<close>

definition two_guild_world :: "string option \<Rightarrow> world" where
  "two_guild_world ts =
     \<lparr>mem = [(''1'', \<lparr>announce_channel_id = Some 5, tracked_series = [(''S1'', example_sdata ts)]\<rparr>),
             (''2'', \<lparr>announce_channel_id = Some 6, tracked_series = [(''S1'', example_sdata ts)]\<rparr>)],
      disk = Missing, sent = []\<rparr>"

definition failing_env :: "save_result \<Rightarrow> env" where
  "failing_env r =
     example_env\<lparr>bot_guilds := [1, 2],
                 write_file := (\<lambda>gid series_id. if gid = ''1'' then r else WriteOk)\<rparr>"

section \<open>Properties\<close>

subsection \<open>The index client\<close>

lemma readableAt_chapter_of [simp]: "readableAt (chapter_of ch i r) = r"
  by (simp add: chapter_of_def)

lemma ch_id_chapter_of [simp]: "ch_id (chapter_of ch i r) = i"
  by (simp add: chapter_of_def)

lemma scan_item_candidate:
  "scan_item fi since_dt ch = Inr r \<Longrightarrow>
   r = (case candidate ch of None \<Rightarrow> None | Some c \<Rightarrow> if newer fi since_dt c then Some c else None)"
  by (auto simp: scan_item_def scan_fields_def candidate_def newer_def
           split: attributes_value.splits option.splits sum.splits if_splits bool.splits)

lemma collect_candidates:
  "collect fi since_dt items = Inr chapters \<Longrightarrow>
   chapters = filter (newer fi since_dt) (candidates items)"
proof (induction items arbitrary: chapters)
  case Nil
  then show ?case by (simp add: candidates_def List.map_filter_simps)
next
  case (Cons ch items)
  from Cons.prems obtain r cs where r: "scan_item fi since_dt ch = Inr r"
    and cs: "collect fi since_dt items = Inr cs"
    and ch: "chapters = (case r of None \<Rightarrow> cs | Some c \<Rightarrow> c # cs)"
    by (auto split: sum.splits)
  from Cons.IH [OF cs] have "cs = filter (newer fi since_dt) (candidates items)" .
  with scan_item_candidate [OF r] ch show ?case
    by (auto simp: candidates_def List.map_filter_simps split: option.splits)
qed

lemma scan_item_parses:
  "scan_item fi since_dt ch = Inr (Some c) \<Longrightarrow> \<exists>d. parse_iso fi (readableAt c) = Inr d"
  by (auto simp: scan_item_def scan_fields_def
           split: attributes_value.splits option.splits sum.splits if_splits bool.splits)

lemma collect_parses:
  "collect fi since_dt items = Inr chapters \<Longrightarrow> c \<in> set chapters \<Longrightarrow>
   \<exists>d. parse_iso fi (readableAt c) = Inr d"
proof (induction items arbitrary: chapters)
  case Nil
  then show ?case by simp
next
  case (Cons ch items)
  from Cons.prems(1) obtain r cs where r: "scan_item fi since_dt ch = Inr r"
    and cs: "collect fi since_dt items = Inr cs"
    and ch: "chapters = (case r of None \<Rightarrow> cs | Some c \<Rightarrow> c # cs)"
    by (auto split: sum.splits)
  show ?case
  proof (cases "c \<in> set cs")
    case True
    then show ?thesis using Cons.IH [OF cs] by simp
  next
    case False
    with Cons.prems(2) ch have "r = Some c" by (auto split: option.splits)
    with r show ?thesis by (auto dest: scan_item_parses)
  qed
qed

lemma sort_chapters_Inr:
  "sort_chapters fi chapters = Inr batch \<Longrightarrow> batch = sort_key (sort_val fi) chapters"
  by (auto simp: sort_chapters_def split: if_splits)

lemma fetch_Inr:
  assumes "fetch_latest_for_series fi session manga_id since_ts = Inr batch"
  shows "\<exists>items since_dt. session manga_id = Inr items \<and> since_dt_of fi since_ts = Inr since_dt
           \<and> collect fi since_dt items = Inr (filter (newer fi since_dt) (candidates items))
           \<and> batch = sort_key (sort_val fi) (filter (newer fi since_dt) (candidates items))"
  using assms
  by (auto simp: fetch_latest_for_series_def split: sum.splits
           dest!: sort_chapters_Inr dest: collect_candidates)

lemma candidate_usable:
  "candidate ch = Some c \<Longrightarrow>
   item_id ch = Some (ch_id c) \<and> ch_id c \<noteq> [] \<and> readable_at ch = Some (readableAt c) \<and> readableAt c \<noteq> []"
  by (auto simp: candidate_def split: option.splits if_splits)

lemma set_candidates: "set (candidates items) = {c. \<exists>ch \<in> set items. candidate ch = Some c}"
  by (force simp: candidates_def List.map_filter_def image_iff)

lemma scan_item_unusable:
  "item_attributes ch \<noteq> AttrNull \<Longrightarrow> \<not> (truthy (item_id ch) \<and> truthy (readable_at ch)) \<Longrightarrow>
   scan_item fi since_dt ch = Inr None"
  by (auto simp: scan_item_def scan_fields_def truthy_def split: attributes_value.splits option.splits)

lemma collect_filter_usable:
  "\<forall>ch \<in> set items. item_attributes ch \<noteq> AttrNull \<Longrightarrow>
   collect fi since_dt (filter (\<lambda>ch. truthy (item_id ch) \<and> truthy (readable_at ch)) items)
   = collect fi since_dt items"
  by (induction items) (auto simp: scan_item_unusable split: sum.splits)

text \<open>
  What the loop does with the items that lack an identifier or a publish timestamp. In
  a response where no \<open>attributes\<close> is \<open>null\<close>, removing them does not change what the
  index client returns; in every response, a chapter that is returned comes from an
  item that has both; and a response with an item whose \<open>attributes\<close> is \<open>null\<close> returns
  no chapter, the fetch raises.
\<close>

lemma unusable_items_skipped:
  assumes "\<forall>ch \<in> set items. item_attributes ch \<noteq> AttrNull"
  shows "fetch_latest_for_series fi
           (respond (filter (\<lambda>ch. truthy (item_id ch) \<and> truthy (readable_at ch)) items))
           manga_id since_ts
         = fetch_latest_for_series fi (respond items) manga_id since_ts"
proof -
  have "collect fi since_dt (filter (\<lambda>ch. truthy (item_id ch) \<and> truthy (readable_at ch)) items)
        = collect fi since_dt items" for since_dt
    using assms by (rule collect_filter_usable)
  then show ?thesis
    by (simp add: fetch_latest_for_series_def respond_def split: sum.splits)
qed

lemma returned_chapters_usable:
  assumes "fetch_latest_for_series fi (respond items) manga_id since_ts = Inr batch"
    and "c \<in> set batch"
  shows "\<exists>ch \<in> set items. item_id ch = Some (ch_id c) \<and> ch_id c \<noteq> [] \<and>
            readable_at ch = Some (readableAt c) \<and> readableAt c \<noteq> []"
proof -
  from fetch_Inr [OF assms(1)] assms(2) obtain since_dt where
    "c \<in> set (filter (newer fi since_dt) (candidates items))"
    by (auto simp: respond_def)
  then obtain ch where "ch \<in> set items" "candidate ch = Some c"
    by (auto simp: set_candidates)
  then show ?thesis
    using candidate_usable by blast
qed

lemma collect_null_attributes:
  "ch \<in> set items \<Longrightarrow> item_attributes ch = AttrNull \<Longrightarrow> \<exists>ex. collect fi since_dt items = Inl ex"
proof (induction items)
  case Nil
  then show ?case by simp
next
  case (Cons x items)
  show ?case
  proof (cases "scan_item fi since_dt x")
    case (Inl ex)
    then show ?thesis by simp
  next
    case (Inr r)
    with Cons.prems have "ch \<noteq> x"
      by (auto simp: scan_item_def)
    with Cons obtain ex where "collect fi since_dt items = Inl ex"
      by auto
    with Inr show ?thesis by simp
  qed
qed

lemma null_attributes_raise:
  assumes "session manga_id = Inr items"
    and "ch \<in> set items" and "item_attributes ch = AttrNull"
  shows "\<exists>ex. fetch_latest_for_series fi session manga_id since_ts = Inl ex"
proof (cases "since_dt_of fi since_ts")
  case (Inl ex)
  with assms(1) show ?thesis by (simp add: fetch_latest_for_series_def)
next
  case (Inr since_dt)
  from collect_null_attributes [OF assms(2,3)] obtain ex where
    "collect fi since_dt items = Inl ex" by blast
  with assms(1) Inr show ?thesis by (simp add: fetch_latest_for_series_def)
qed

text \<open>
  C8, on a response where the code fails it. The index lists chapter \<open>a\<close> and an item
  \<open>c\<close> whose \<open>attributes\<close> is \<open>null\<close>, which therefore has no publish timestamp. The item
  is not dropped: the fetch raises \<open>AttributeError\<close> and returns no chapter at all. The
  same response without the item returns chapter \<open>a\<close>, and so does the response where
  the \<open>attributes\<close> of \<open>c\<close> is absent instead of \<open>null\<close>.
\<close>

theorem null_attributes_not_dropped:
  "fetch_latest_for_series iso_example
     (respond [mk_item ''a'' ''10'' ''2024-05-02T00:00:00Z'',
               \<lparr>item_id = Some ''c'', item_attributes = AttrNull\<rparr>])
     ''m'' None
   = Inl AttributeError
   \<and> fetch_latest_for_series iso_example
     (respond [mk_item ''a'' ''10'' ''2024-05-02T00:00:00Z''])
     ''m'' None
   = Inr [mk_chapter ''a'' ''10'' ''2024-05-02T00:00:00Z'']
   \<and> fetch_latest_for_series iso_example
     (respond [mk_item ''a'' ''10'' ''2024-05-02T00:00:00Z'',
               \<lparr>item_id = Some ''c'', item_attributes = AttrAbsent\<rparr>])
     ''m'' None
   = Inr [mk_chapter ''a'' ''10'' ''2024-05-02T00:00:00Z'']"
  by (simp add: fetch_latest_for_series_def since_dt_of_def scan_item_def scan_fields_def readable_at_def
        respond_def mk_item_def mk_chapter_def chapter_of_def parse_iso_def endswith_def iso_example_def
        sort_chapters_def aware_key_def suffix_to_prefix)

lemma scan_item_comparable:
  "scan_item fi (Some s) ch = Inr r \<Longrightarrow> candidate ch = Some c \<Longrightarrow>
   \<exists>d. parse_iso fi (readableAt c) = Inr d \<and> is_aware d = is_aware s"
  by (cases s)
     (auto simp: scan_item_def scan_fields_def candidate_def
           split: attributes_value.splits option.splits sum.splits if_splits bool.splits
           elim!: dt_le.elims)

lemma collect_comparable:
  "collect fi (Some s) items = Inr chapters \<Longrightarrow> c \<in> set (candidates items) \<Longrightarrow>
   \<exists>d. parse_iso fi (readableAt c) = Inr d \<and> is_aware d = is_aware s"
proof (induction items arbitrary: chapters)
  case Nil
  then show ?case by (simp add: set_candidates)
next
  case (Cons ch items)
  from Cons.prems(1) obtain r cs where r: "scan_item fi (Some s) ch = Inr r"
    and cs: "collect fi (Some s) items = Inr cs"
    by (auto split: sum.splits)
  from Cons.prems(2) consider "candidate ch = Some c" | "c \<in> set (candidates items)"
    by (auto simp: set_candidates)
  then show ?case
  proof cases
    case 1
    with r show ?thesis by (rule scan_item_comparable)
  next
    case 2
    with Cons.IH [OF cs] show ?thesis .
  qed
qed

lemma newer_iff:
  "parse_iso fi (readableAt c) = Inr d \<Longrightarrow> is_aware d = is_aware s \<Longrightarrow>
   newer fi (Some s) c \<longleftrightarrow> dt_val s < sort_val fi c"
  by (cases d; cases s) (auto simp: newer_def sort_val_def)

lemma since_dt_of_Some:
  "w \<noteq> [] \<Longrightarrow> since_dt_of fi (Some w) = Inr since_dt \<Longrightarrow> \<exists>wd. parse_iso fi w = Inr wd \<and> since_dt = Some wd"
  by (auto simp: since_dt_of_def split: sum.splits)

text \<open>
  C4. With a watermark \<open>w\<close>, a batch returned for a response holds exactly the candidates
  of the response whose publish time is strictly later than the time of \<open>w\<close>, each as many
  times as the response lists it, in ascending order of publish time; the publish time
  of every candidate is a time that can be compared with the watermark's.
\<close>

theorem steady_state_batch:
  assumes "w \<noteq> []"
    and "session manga_id = Inr items"
    and "fetch_latest_for_series fi session manga_id (Some w) = Inr batch"
  shows "\<exists>wd. parse_iso fi w = Inr wd
           \<and> mset batch = mset (filter (\<lambda>c. dt_val wd < sort_val fi c) (candidates items))
           \<and> sorted (map (sort_val fi) batch)
           \<and> (\<forall>c \<in> set (candidates items).
                 \<exists>d. parse_iso fi (readableAt c) = Inr d \<and> is_aware d = is_aware wd)"
proof -
  from fetch_Inr [OF assms(3)] assms(2) obtain since_dt where
    s: "since_dt_of fi (Some w) = Inr since_dt"
    and c: "collect fi since_dt items = Inr (filter (newer fi since_dt) (candidates items))"
    and b: "batch = sort_key (sort_val fi) (filter (newer fi since_dt) (candidates items))"
    by auto
  from since_dt_of_Some [OF assms(1) s] obtain wd where
    wd: "parse_iso fi w = Inr wd" and sd: "since_dt = Some wd"
    by blast
  have cmp: "\<forall>c \<in> set (candidates items).
               \<exists>d. parse_iso fi (readableAt c) = Inr d \<and> is_aware d = is_aware wd"
    using collect_comparable c sd by blast
  then have "filter (newer fi (Some wd)) (candidates items)
             = filter (\<lambda>c. dt_val wd < sort_val fi c) (candidates items)"
    by (intro filter_cong refl) (auto simp: newer_iff)
  with b sd have "mset batch = mset (filter (\<lambda>c. dt_val wd < sort_val fi c) (candidates items))"
    by simp
  moreover from b have "sorted (map (sort_val fi) batch)"
    by simp
  ultimately show ?thesis using wd cmp by blast
qed

lemma fetch_example_run:
  "fetch_latest_for_series iso_example
     (respond [mk_item ''c'' ''12'' ''2024-05-04T00:00:00Z'', mk_item ''a'' ''10'' ''2024-05-02T00:00:00Z'',
               mk_item ''x'' ''9'' ''2024-05-01T00:00:00Z'', mk_item ''b'' ''11'' ''2024-05-03T00:00:00Z''])
     ''m'' (Some ''2024-05-01T00:00:00Z'')
   = Inr [mk_chapter ''a'' ''10'' ''2024-05-02T00:00:00Z'', mk_chapter ''b'' ''11'' ''2024-05-03T00:00:00Z'',
          mk_chapter ''c'' ''12'' ''2024-05-04T00:00:00Z'']"
  by (simp add: fetch_latest_for_series_def since_dt_of_def scan_item_def scan_fields_def readable_at_def
        respond_def mk_item_def mk_chapter_def chapter_of_def parse_iso_def endswith_def iso_example_def
        sort_chapters_def aware_key_def suffix_to_prefix sort_val_def)

theorem steady_state_batch_witness:
  "fetch_latest_for_series iso_example
     (respond [mk_item ''c'' ''12'' ''2024-05-04T00:00:00Z'', mk_item ''a'' ''10'' ''2024-05-02T00:00:00Z'',
               mk_item ''x'' ''9'' ''2024-05-01T00:00:00Z'', mk_item ''b'' ''11'' ''2024-05-03T00:00:00Z''])
     ''m'' (Some ''2024-05-01T00:00:00Z'')
   = Inr [mk_chapter ''a'' ''10'' ''2024-05-02T00:00:00Z'', mk_chapter ''b'' ''11'' ''2024-05-03T00:00:00Z'',
          mk_chapter ''c'' ''12'' ''2024-05-04T00:00:00Z'']
   \<and> sorted (map (sort_val iso_example)
         [mk_chapter ''a'' ''10'' ''2024-05-02T00:00:00Z'', mk_chapter ''b'' ''11'' ''2024-05-03T00:00:00Z'',
          mk_chapter ''c'' ''12'' ''2024-05-04T00:00:00Z''])"
proof -
  have w: "''2024-05-01T00:00:00Z'' \<noteq> []" by simp
  have s: "respond [mk_item ''c'' ''12'' ''2024-05-04T00:00:00Z'', mk_item ''a'' ''10'' ''2024-05-02T00:00:00Z'',
               mk_item ''x'' ''9'' ''2024-05-01T00:00:00Z'', mk_item ''b'' ''11'' ''2024-05-03T00:00:00Z''] ''m''
           = Inr [mk_item ''c'' ''12'' ''2024-05-04T00:00:00Z'', mk_item ''a'' ''10'' ''2024-05-02T00:00:00Z'',
               mk_item ''x'' ''9'' ''2024-05-01T00:00:00Z'', mk_item ''b'' ''11'' ''2024-05-03T00:00:00Z'']"
    by (simp add: respond_def)
  from steady_state_batch [OF w s fetch_example_run] fetch_example_run show ?thesis
    by blast
qed

text \<open>
  C5, as the code has it. The candidates of a batch that have the same publish time
  stand in the batch in the order in which the response lists them.
\<close>

theorem tie_order_stable:
  assumes "session manga_id = Inr items"
    and "fetch_latest_for_series fi session manga_id since_ts = Inr batch"
  shows "filter (\<lambda>c. sort_val fi c = t) batch
         = filter (\<lambda>c. sort_val fi c = t) (filter (\<lambda>c. c \<in> set batch) (candidates items))"
proof -
  from fetch_Inr [OF assms(2)] assms(1) obtain since_dt where
    b: "batch = sort_key (sort_val fi) (filter (newer fi since_dt) (candidates items))"
    by auto
  then have "set batch = {c \<in> set (candidates items). newer fi since_dt c}"
    by auto
  then have "filter (\<lambda>c. c \<in> set batch) (candidates items) = filter (newer fi since_dt) (candidates items)"
    by (intro filter_cong refl) auto
  with b show ?thesis
    by (simp only: sort_key_stable)
qed

theorem tie_order_counterexample:
  "fetch_latest_for_series iso_example
     (respond [mk_item ''b'' ''11'' ''2024-05-02T00:00:00Z'', mk_item ''a'' ''10'' ''2024-05-02T00:00:00Z''])
     ''m'' (Some ''2024-05-01T00:00:00Z'')
   = Inr [mk_chapter ''b'' ''11'' ''2024-05-02T00:00:00Z'', mk_chapter ''a'' ''10'' ''2024-05-02T00:00:00Z'']
   \<and> fetch_latest_for_series iso_example
     (respond [mk_item ''a'' ''10'' ''2024-05-02T00:00:00Z'', mk_item ''b'' ''11'' ''2024-05-02T00:00:00Z''])
     ''m'' (Some ''2024-05-01T00:00:00Z'')
   = Inr [mk_chapter ''a'' ''10'' ''2024-05-02T00:00:00Z'', mk_chapter ''b'' ''11'' ''2024-05-02T00:00:00Z'']"
  by (simp add: fetch_latest_for_series_def since_dt_of_def scan_item_def scan_fields_def readable_at_def
        respond_def mk_item_def mk_chapter_def chapter_of_def parse_iso_def endswith_def iso_example_def
        sort_chapters_def aware_key_def suffix_to_prefix sort_val_def)

theorem tie_order_stable_witness:
  "filter (\<lambda>c. sort_val iso_example c = 1714608000)
     [mk_chapter ''b'' ''11'' ''2024-05-02T00:00:00Z'', mk_chapter ''a'' ''10'' ''2024-05-02T00:00:00Z'']
   = filter (\<lambda>c. sort_val iso_example c = 1714608000)
       (filter (\<lambda>c. c \<in> set [mk_chapter ''b'' ''11'' ''2024-05-02T00:00:00Z'', mk_chapter ''a'' ''10'' ''2024-05-02T00:00:00Z''])
          (candidates [mk_item ''b'' ''11'' ''2024-05-02T00:00:00Z'', mk_item ''a'' ''10'' ''2024-05-02T00:00:00Z'']))"
proof -
  have s: "respond [mk_item ''b'' ''11'' ''2024-05-02T00:00:00Z'', mk_item ''a'' ''10'' ''2024-05-02T00:00:00Z''] ''m''
           = Inr [mk_item ''b'' ''11'' ''2024-05-02T00:00:00Z'', mk_item ''a'' ''10'' ''2024-05-02T00:00:00Z'']"
    by (simp add: respond_def)
  have run: "fetch_latest_for_series iso_example
     (respond [mk_item ''b'' ''11'' ''2024-05-02T00:00:00Z'', mk_item ''a'' ''10'' ''2024-05-02T00:00:00Z''])
     ''m'' (Some ''2024-05-01T00:00:00Z'')
   = Inr [mk_chapter ''b'' ''11'' ''2024-05-02T00:00:00Z'', mk_chapter ''a'' ''10'' ''2024-05-02T00:00:00Z'']"
    by (simp add: fetch_latest_for_series_def since_dt_of_def scan_item_def scan_fields_def readable_at_def
        respond_def mk_item_def mk_chapter_def chapter_of_def parse_iso_def endswith_def iso_example_def
        sort_chapters_def aware_key_def suffix_to_prefix sort_val_def)
  from tie_order_stable [OF s run] show ?thesis .
qed

subsection \<open>The stored data and the commands\<close>

lemma mem_save_data [simp]: "mem (fst (save_data r w)) = mem w"
  by (cases r) (simp_all add: save_data_def)

lemma sent_save_data [simp]: "sent (fst (save_data r w)) = sent w"
  by (cases r) (simp_all add: save_data_def)

lemma get_guild_data_present:
  "map_of d (str_int guild_id) = Some g \<Longrightarrow> get_guild_data guild_id d = (g, d)"
  by (simp add: get_guild_data_def)

lemma get_guild_data_lookup:
  "map_of (snd (get_guild_data guild_id d)) (str_int guild_id) = Some (fst (get_guild_data guild_id d))"
  by (auto simp: get_guild_data_def Let_def update_conv' split: option.splits)

lemma item_at_store_sdata:
  "map_of d gid = Some g \<Longrightarrow>
   item_at (store_sdata gid series_id sd d) gid' series_id'
   = (if gid' = gid \<and> series_id' = series_id then Some sd else item_at d gid' series_id')"
  by (auto simp: item_at_def store_sdata_def map_of_map_entry update_conv' split: option.splits)

lemma item_at_get_guild_data:
  "item_at (snd (get_guild_data guild_id d)) gid series_id = item_at d gid series_id"
  by (auto simp: item_at_def get_guild_data_def Let_def update_conv' split: option.splits)

lemma item_at_tracked:
  "item_at d (str_int guild_id) series_id
   = map_of (tracked_series (fst (get_guild_data guild_id d))) series_id"
  by (auto simp: item_at_def get_guild_data_def Let_def split: option.splits)

text \<open>
  C6. Tracking a series that the guild already tracks changes nothing, in memory or on
  disk, and answers that the series is already tracked; tracking a series that the guild
  does not track yet leaves the guild with a record of the series that has the given
  name and role and no watermark.
\<close>

theorem track_series_already_tracked:
  "(item_at (mem w) (str_int guild_id) (extract_mangadex_id arg) = Some sd \<longrightarrow>
      track_series wr guild_id arg role role_mention nm w
      = (w, Inr (already_tracking (extract_mangadex_id arg) sd)))
   \<and> (item_at (mem w) (str_int guild_id) (extract_mangadex_id arg) = None \<longrightarrow>
      item_at (mem (fst (track_series wr guild_id arg role role_mention nm w)))
        (str_int guild_id) (extract_mangadex_id arg)
      = Some \<lparr>name = nm, last_seen_ts = None, role_id = Some role\<rparr>)"
proof (intro conjI impI)
  assume a: "item_at (mem w) (str_int guild_id) (extract_mangadex_id arg) = Some sd"
  then obtain g where g: "map_of (mem w) (str_int guild_id) = Some g"
    by (auto simp: item_at_def split: option.splits)
  then have gd: "get_guild_data guild_id (mem w) = (g, mem w)"
    by (rule get_guild_data_present)
  from a g have "map_of (tracked_series g) (extract_mangadex_id arg) = Some sd"
    by (simp add: item_at_def)
  with gd show "track_series wr guild_id arg role role_mention nm w
      = (w, Inr (already_tracking (extract_mangadex_id arg) sd))"
    by (simp add: track_series_def)
next
  assume a: "item_at (mem w) (str_int guild_id) (extract_mangadex_id arg) = None"
  let ?gd = "get_guild_data guild_id (mem w)"
  let ?sd = "\<lparr>name = nm, last_seen_ts = None, role_id = Some role\<rparr>"
  from a have n: "map_of (tracked_series (fst ?gd)) (extract_mangadex_id arg) = None"
    by (simp add: item_at_tracked)
  have "mem (fst (track_series wr guild_id arg role role_mention nm w))
        = store_sdata (str_int guild_id) (extract_mangadex_id arg) ?sd (snd ?gd)"
    using n by (cases wr) (simp_all add: track_series_def Let_def save_data_def)
  then show "item_at (mem (fst (track_series wr guild_id arg role role_mention nm w)))
        (str_int guild_id) (extract_mangadex_id arg) = Some ?sd"
    by (simp add: item_at_store_sdata [OF get_guild_data_lookup])
qed

theorem track_series_already_tracked_witness:
  "track_series WriteOk 12 ''https://mangadex.org/title/9a414441-bbad/orv'' 7 ''@r'' ''Other''
     \<lparr>mem = [(''12'', \<lparr>announce_channel_id = Some 5,
                tracked_series = [(''9a414441-bbad'', \<lparr>name = ''ORV'', last_seen_ts = Some ''2024-05-01T00:00:00Z'', role_id = Some 3\<rparr>)]\<rparr>)],
      disk = Missing, sent = []\<rparr>
   = (\<lparr>mem = [(''12'', \<lparr>announce_channel_id = Some 5,
                tracked_series = [(''9a414441-bbad'', \<lparr>name = ''ORV'', last_seen_ts = Some ''2024-05-01T00:00:00Z'', role_id = Some 3\<rparr>)]\<rparr>)],
      disk = Missing, sent = []\<rparr>,
      Inr (already_tracking ''9a414441-bbad'' \<lparr>name = ''ORV'', last_seen_ts = Some ''2024-05-01T00:00:00Z'', role_id = Some 3\<rparr>))
   \<and> item_at (mem (fst (track_series WriteOk 12 ''9a414441-bbad'' 7 ''@r'' ''ORV''
        \<lparr>mem = [], disk = Missing, sent = []\<rparr>))) ''12'' ''9a414441-bbad''
     = Some \<lparr>name = ''ORV'', last_seen_ts = None, role_id = Some 7\<rparr>"
proof -
  have s: "str_int 12 = ''12''" by code_simp
  have x1: "extract_mangadex_id ''https://mangadex.org/title/9a414441-bbad/orv'' = ''9a414441-bbad''"
    by (simp add: extract_mangadex_id_def strip_char_def id_like_def sublist_code)
  have x2: "extract_mangadex_id ''9a414441-bbad'' = ''9a414441-bbad''"
    by (simp add: extract_mangadex_id_def strip_char_def id_like_def sublist_code)
  have a: "item_at (mem \<lparr>mem = [(''12'', \<lparr>announce_channel_id = Some 5,
                tracked_series = [(''9a414441-bbad'', \<lparr>name = ''ORV'', last_seen_ts = Some ''2024-05-01T00:00:00Z'', role_id = Some 3\<rparr>)]\<rparr>)],
      disk = Missing, sent = []\<rparr>) (str_int 12) (extract_mangadex_id ''https://mangadex.org/title/9a414441-bbad/orv'')
     = Some \<lparr>name = ''ORV'', last_seen_ts = Some ''2024-05-01T00:00:00Z'', role_id = Some 3\<rparr>"
    by (simp add: s x1 item_at_def)
  have b: "item_at (mem \<lparr>mem = [], disk = Missing, sent = []\<rparr>) (str_int 12) (extract_mangadex_id ''9a414441-bbad'') = None"
    by (simp add: item_at_def)
  from track_series_already_tracked [of _ 12 "''https://mangadex.org/title/9a414441-bbad/orv''" _ WriteOk 7 "''@r''" "''Other''"] a
    track_series_already_tracked [of "\<lparr>mem = [], disk = Missing, sent = []\<rparr>" 12 "''9a414441-bbad''" _ WriteOk 7 "''@r''" "''ORV''"] b
  show ?thesis
    by (simp add: s x1 x2)
qed

subsection \<open>The command boundary\<close>

lemma split_sep_not_Nil [simp]: "split_sep c s \<noteq> []"
  by (induction s) (auto split: list.splits)

lemma split_sep_snoc: "split_sep c (s @ [c]) = split_sep c s @ [[]]"
  by (induction s) (auto split: list.splits)

lemma split_sep_drop_leading:
  "set (split_sep c (dropWhile (\<lambda>x. x = c) s)) \<subseteq> set (split_sep c s)"
  by (induction s) (auto split: list.splits)

lemma split_sep_drop_trailing:
  "set (split_sep c (rev (dropWhile (\<lambda>x. x = c) (rev s)))) \<subseteq> insert [] (set (split_sep c s))"
proof (induction s rule: rev_induct)
  case Nil
  then show ?case by simp
next
  case (snoc x xs)
  show ?case
  proof (cases "x = c")
    case True
    with snoc show ?thesis by (auto simp: split_sep_snoc)
  next
    case False
    then show ?thesis by auto
  qed
qed

lemma split_sep_strip_char:
  "set (split_sep c (strip_char c s)) \<subseteq> insert [] (set (split_sep c s))"
proof -
  have "set (split_sep c (strip_char c s)) \<subseteq> insert [] (set (split_sep c (dropWhile (\<lambda>x. x = c) s)))"
    unfolding strip_char_def by (rule split_sep_drop_trailing)
  also have "\<dots> \<subseteq> insert [] (set (split_sep c s))"
    using split_sep_drop_leading [of c s] by blast
  finally show ?thesis .
qed

text \<open>
  C10. An argument that does not contain \<open>mangadex.org\<close>, or that contains it while no
  segment between slashes has both a hyphen and at least 8 characters, is returned as it is, and it is the key
  under which \<open>track_series\<close> stores a series not tracked before.
\<close>

theorem extract_mangadex_id_unchanged:
  assumes "\<not> sublist ''mangadex.org'' series_arg
           \<or> (\<forall>part \<in> set (split_sep CHR ''/'' series_arg).
                 \<not> (CHR ''-'' \<in> set part \<and> 8 \<le> length part))"
  shows "extract_mangadex_id series_arg = series_arg
         \<and> (item_at (mem w) (str_int guild_id) series_arg = None \<longrightarrow>
              item_at (mem (fst (track_series wr guild_id series_arg role role_mention nm w)))
                (str_int guild_id) series_arg
              = Some \<lparr>name = nm, last_seen_ts = None, role_id = Some role\<rparr>)"
proof -
  have x: "extract_mangadex_id series_arg = series_arg"
  proof (cases "sublist ''mangadex.org'' series_arg")
    case False
    then show ?thesis by (simp add: extract_mangadex_id_def)
  next
    case True
    with assms have "\<forall>part \<in> set (split_sep CHR ''/'' series_arg). \<not> id_like part"
      by (simp add: id_like_def)
    moreover have "\<not> id_like []"
      by (simp add: id_like_def)
    ultimately have "\<forall>part \<in> set (split_sep CHR ''/'' (strip_char CHR ''/'' series_arg)). \<not> id_like part"
      using split_sep_strip_char [of "CHR ''/''" series_arg] by blast
    then have "find id_like (split_sep CHR ''/'' (strip_char CHR ''/'' series_arg)) = None"
      by (simp add: find_None_iff)
    then show ?thesis by (simp add: extract_mangadex_id_def)
  qed
  let ?gd = "get_guild_data guild_id (mem w)"
  let ?sd = "\<lparr>name = nm, last_seen_ts = None, role_id = Some role\<rparr>"
  {
    assume "item_at (mem w) (str_int guild_id) series_arg = None"
    then have n: "map_of (tracked_series (fst ?gd)) (extract_mangadex_id series_arg) = None"
      by (simp add: item_at_tracked x)
    have "mem (fst (track_series wr guild_id series_arg role role_mention nm w))
          = store_sdata (str_int guild_id) series_arg ?sd (snd ?gd)"
      using n by (cases wr) (simp_all add: track_series_def Let_def save_data_def x)
    then have "item_at (mem (fst (track_series wr guild_id series_arg role role_mention nm w)))
                (str_int guild_id) series_arg = Some ?sd"
      by (simp add: item_at_store_sdata [OF get_guild_data_lookup])
  }
  with x show ?thesis by blast
qed

theorem extract_mangadex_id_unchanged_witness:
  "extract_mangadex_id ''https://mangadex.org/title/a1b2-c3/name'' = ''https://mangadex.org/title/a1b2-c3/name''
   \<and> item_at (mem (fst (track_series WriteOk 12 ''https://mangadex.org/title/a1b2-c3/name'' 7 ''@r'' ''ORV''
        \<lparr>mem = [], disk = Missing, sent = []\<rparr>))) ''12'' ''https://mangadex.org/title/a1b2-c3/name''
     = Some \<lparr>name = ''ORV'', last_seen_ts = None, role_id = Some 7\<rparr>
   \<and> extract_mangadex_id ''9a41-bbad'' = ''9a41-bbad''"
proof -
  have s: "str_int 12 = ''12''" by code_simp
  have h1: "\<not> sublist ''mangadex.org'' ''https://mangadex.org/title/a1b2-c3/name''
           \<or> (\<forall>part \<in> set (split_sep CHR ''/'' ''https://mangadex.org/title/a1b2-c3/name'').
                 \<not> (CHR ''-'' \<in> set part \<and> 8 \<le> length part))"
    by simp
  have h2: "\<not> sublist ''mangadex.org'' ''9a41-bbad''
           \<or> (\<forall>part \<in> set (split_sep CHR ''/'' ''9a41-bbad'').
                 \<not> (CHR ''-'' \<in> set part \<and> 8 \<le> length part))"
    by (simp add: sublist_code)
  have n: "item_at (mem \<lparr>mem = [], disk = Missing, sent = []\<rparr>) (str_int 12) ''https://mangadex.org/title/a1b2-c3/name'' = None"
    by (simp add: item_at_def)
  from extract_mangadex_id_unchanged [OF h1, of "\<lparr>mem = [], disk = Missing, sent = []\<rparr>" 12 WriteOk 7 "''@r''" "''ORV''"] n
    extract_mangadex_id_unchanged [OF h2, of "\<lparr>mem = [], disk = Missing, sent = []\<rparr>" 12 WriteOk 7 "''@r''" "''ORV''"]
  show ?thesis
    by (simp add: s)
qed

subsection \<open>One series in one run of the task\<close>

lemma sorted_le_last:
  "sorted (map f xs) \<Longrightarrow> x \<in> set xs \<Longrightarrow> f x \<le> f (last xs)"
  by (induction xs) (auto split: if_splits)

lemma fetch_sorted:
  "fetch_latest_for_series fi session manga_id since_ts = Inr batch \<Longrightarrow> sorted (map (sort_val fi) batch)"
  by (auto dest!: fetch_Inr)

lemma fetch_readableAt:
  assumes "fetch_latest_for_series fi session manga_id since_ts = Inr batch" and "c \<in> set batch"
  shows "readableAt c \<noteq> []"
proof -
  from fetch_Inr [OF assms(1)] assms(2) obtain items where "c \<in> set (candidates items)"
    by auto
  then show ?thesis
    by (auto simp: set_candidates dest: candidate_usable)
qed

lemma dt_le_same_kind:
  "is_aware d = is_aware d' \<Longrightarrow> dt_le d' d = Inr (dt_val d' \<le> dt_val d)"
  by (cases d; cases d') simp_all

lemma sort_chapters_keys:
  assumes "sort_chapters fi chapters = Inr batch" and "c \<in> set chapters" and "c' \<in> set chapters"
  shows "\<exists>d d'. parse_iso fi (readableAt c) = Inr d \<and> parse_iso fi (readableAt c') = Inr d'
                 \<and> is_aware d = is_aware d'"
proof -
  from assms(1) have p: "\<forall>x \<in> set chapters. \<not> isl (parse_iso fi (readableAt x))"
    and k: "\<not> ((\<exists>x \<in> set chapters. aware_key fi x) \<and> (\<exists>x \<in> set chapters. \<not> aware_key fi x))"
    by (auto simp: sort_chapters_def split: if_splits)
  from p assms(2) obtain d where d1: "parse_iso fi (readableAt c) = Inr d"
    by (cases "parse_iso fi (readableAt c)") auto
  from p assms(3) obtain d' where d2: "parse_iso fi (readableAt c') = Inr d'"
    by (cases "parse_iso fi (readableAt c')") auto
  note d = d1 d2
  with k assms(2,3) have "is_aware d = is_aware d'"
    by (auto simp: aware_key_def)
  with d show ?thesis by blast
qed

lemma fetch_sort_chapters:
  assumes "fetch_latest_for_series fi session manga_id since_ts = Inr batch"
  shows "\<exists>chapters. sort_chapters fi chapters = Inr batch"
proof (cases "session manga_id")
  case (Inl ex)
  with assms show ?thesis by (simp add: fetch_latest_for_series_def)
next
  case items: (Inr items)
  show ?thesis
  proof (cases "since_dt_of fi since_ts")
    case (Inl ex)
    with assms items show ?thesis by (simp add: fetch_latest_for_series_def)
  next
    case since: (Inr since_dt)
    show ?thesis
    proof (cases "collect fi since_dt items")
      case (Inl ex)
      with assms items since show ?thesis by (simp add: fetch_latest_for_series_def)
    next
      case (Inr chapters)
      with assms items since have "sort_chapters fi chapters = Inr batch"
        by (simp add: fetch_latest_for_series_def)
      then show ?thesis ..
    qed
  qed
qed

lemma fetch_latest_last:
  assumes "fetch_latest_for_series fi session manga_id since_ts = Inr batch"
    and "c' \<in> set batch" and "batch \<noteq> []"
  shows "\<exists>d d'. parse_iso fi (readableAt (last batch)) = Inr d \<and> parse_iso fi (readableAt c') = Inr d'
                 \<and> dt_le d' d = Inr True"
proof -
  from fetch_sort_chapters [OF assms(1)] obtain chapters where
    s: "sort_chapters fi chapters = Inr batch" ..
  from sort_chapters_Inr [OF s] have b: "set batch = set chapters"
    by simp
  from assms(3) have "last batch \<in> set batch"
    by simp
  with b assms(2) have m: "last batch \<in> set chapters" "c' \<in> set chapters"
    by simp_all
  from sort_chapters_keys [OF s m] obtain d d' where
    d1: "parse_iso fi (readableAt (last batch)) = Inr d"
    and d2: "parse_iso fi (readableAt c') = Inr d'"
    and k: "is_aware d = is_aware d'"
    by blast
  have "sort_val fi c' \<le> sort_val fi (last batch)"
    using fetch_sorted [OF assms(1)] assms(2) by (rule sorted_le_last)
  with d1 d2 have "dt_val d' \<le> dt_val d"
    by (simp add: sort_val_def)
  with dt_le_same_kind [OF k] have "dt_le d' d = Inr True"
    by simp
  with d1 d2 show ?thesis
    by blast
qed

text \<open>
  C3. For a series without a watermark whose fetch returns the candidates
  \<open>all_recent\<close>: no message is delivered; when \<open>all_recent\<close> is empty nothing changes; when
  it is not, the watermark of the series becomes the \<open>readableAt\<close> of a candidate whose
  time is not before the time of any candidate, whether or not the write that follows
  succeeds.
\<close>

theorem priming_sets_watermark:
  assumes "\<not> truthy (last_seen_ts sd)"
    and "map_of (mem w) gid = Some g"
    and "fetch_latest_for_series fi (http e gid) series_id None = Inr all_recent"
  shows "sent (fst (process_series fi e gid channel series_id sd w)) = sent w
         \<and> (all_recent = [] \<longrightarrow> process_series fi e gid channel series_id sd w = (w, None))
         \<and> (all_recent \<noteq> [] \<longrightarrow>
              (\<exists>c \<in> set all_recent.
                 (\<forall>c' \<in> set all_recent.
                     \<exists>d d'. parse_iso fi (readableAt c) = Inr d \<and> parse_iso fi (readableAt c') = Inr d'
                            \<and> dt_le d' d = Inr True)
                 \<and> item_at (mem (fst (process_series fi e gid channel series_id sd w))) gid series_id
                   = Some (sd\<lparr>last_seen_ts := Some (readableAt c)\<rparr>)))"
proof (cases "all_recent = []")
  case True
  with assms show ?thesis by (simp add: process_series_def)
next
  case False
  let ?c = "last all_recent"
  let ?r = "process_series fi e gid channel series_id sd w"
  have r: "?r = save_data (write_file e gid (Some series_id))
                  (w\<lparr>mem := store_sdata gid series_id (sd\<lparr>last_seen_ts := Some (readableAt ?c)\<rparr>) (mem w)\<rparr>)"
    using assms False by (simp add: process_series_def Let_def)
  have "sent (fst ?r) = sent w"
    by (simp add: r)
  moreover have "item_at (mem (fst ?r)) gid series_id = Some (sd\<lparr>last_seen_ts := Some (readableAt ?c)\<rparr>)"
    by (simp add: r item_at_store_sdata [OF assms(2)])
  moreover have "\<forall>c' \<in> set all_recent.
      \<exists>d d'. parse_iso fi (readableAt ?c) = Inr d \<and> parse_iso fi (readableAt c') = Inr d'
             \<and> dt_le d' d = Inr True"
  proof
    fix c' assume "c' \<in> set all_recent"
    from fetch_latest_last [OF assms(3) this False]
    show "\<exists>d d'. parse_iso fi (readableAt ?c) = Inr d \<and> parse_iso fi (readableAt c') = Inr d'
             \<and> dt_le d' d = Inr True" .
  qed
  moreover have "?c \<in> set all_recent"
    using False by simp
  ultimately show ?thesis using False by blast
qed

lemma example_fetch_all:
  "fetch_latest_for_series iso_example (http example_env ''1'') ''S1'' None
   = Inr [mk_chapter ''a'' ''10'' ''2024-05-02T00:00:00Z'', mk_chapter ''b'' ''11'' ''2024-05-03T00:00:00Z'']"
  by (simp add: example_env_def fetch_latest_for_series_def since_dt_of_def scan_item_def scan_fields_def readable_at_def
        respond_def mk_item_def mk_chapter_def chapter_of_def parse_iso_def endswith_def iso_example_def
        sort_chapters_def aware_key_def suffix_to_prefix sort_val_def)

lemma example_fetch_new:
  "fetch_latest_for_series iso_example (http example_env ''1'') ''S1'' (Some ''2024-05-01T00:00:00Z'')
   = Inr [mk_chapter ''a'' ''10'' ''2024-05-02T00:00:00Z'', mk_chapter ''b'' ''11'' ''2024-05-03T00:00:00Z'']"
  by (simp add: example_env_def fetch_latest_for_series_def since_dt_of_def scan_item_def scan_fields_def readable_at_def
        respond_def mk_item_def mk_chapter_def chapter_of_def parse_iso_def endswith_def iso_example_def
        sort_chapters_def aware_key_def suffix_to_prefix sort_val_def)

theorem priming_sets_watermark_witness:
  "sent (fst (process_series iso_example example_env ''1'' 5 ''S1'' (example_sdata None) (example_world None))) = []
   \<and> item_at (mem (fst (process_series iso_example example_env ''1'' 5 ''S1'' (example_sdata None) (example_world None))))
        ''1'' ''S1''
     = Some (example_sdata (Some ''2024-05-03T00:00:00Z''))"
proof -
  let ?a = "mk_chapter ''a'' ''10'' ''2024-05-02T00:00:00Z''"
  let ?b = "mk_chapter ''b'' ''11'' ''2024-05-03T00:00:00Z''"
  let ?r = "process_series iso_example example_env ''1'' 5 ''S1'' (example_sdata None) (example_world None)"
  have t: "\<not> truthy (last_seen_ts (example_sdata None))"
    by (simp add: truthy_def example_sdata_def)
  have g: "map_of (mem (example_world None)) ''1''
           = Some \<lparr>announce_channel_id = Some 5, tracked_series = [(''S1'', example_sdata None)]\<rparr>"
    by (simp add: example_world_def)
  have pa: "parse_iso iso_example (readableAt ?a) = Inr (Aware 1714608000)"
    by (simp add: mk_chapter_def parse_iso_def endswith_def suffix_to_prefix iso_example_def)
  have pb: "parse_iso iso_example (readableAt ?b) = Inr (Aware 1714694400)"
    by (simp add: mk_chapter_def parse_iso_def endswith_def suffix_to_prefix iso_example_def)
  have ne: "[?a, ?b] \<noteq> []"
    by simp
  note th = priming_sets_watermark [OF t g example_fetch_all, of 5]
  from th have s: "sent (fst ?r) = sent (example_world None)"
    by (rule conjunct1)
  from th ne obtain c where cin: "c \<in> set [?a, ?b]"
    and mx: "\<forall>c' \<in> set [?a, ?b]. \<exists>d d'. parse_iso iso_example (readableAt c) = Inr d
                \<and> parse_iso iso_example (readableAt c') = Inr d' \<and> dt_le d' d = Inr True"
    and it: "item_at (mem (fst ?r)) ''1'' ''S1''
             = Some ((example_sdata None)\<lparr>last_seen_ts := Some (readableAt c)\<rparr>)"
    by blast
  have "c \<noteq> ?a"
  proof
    assume "c = ?a"
    moreover have "?b \<in> set [?a, ?b]" by simp
    ultimately obtain d d' where "parse_iso iso_example (readableAt ?a) = Inr d"
      "parse_iso iso_example (readableAt ?b) = Inr d'" "dt_le d' d = Inr True"
      using mx by blast
    with pa pb show False by simp
  qed
  with cin have "c = ?b" by simp
  with it have "item_at (mem (fst ?r)) ''1'' ''S1'' = Some (example_sdata (Some ''2024-05-03T00:00:00Z''))"
    by (simp add: mk_chapter_def example_sdata_def)
  with s show ?thesis by (simp add: example_world_def)
qed

lemma send_loop_prefix:
  "k \<le> length batch \<Longrightarrow> \<forall>j<k. send (i + j) = Delivered \<Longrightarrow>
   (k < length batch \<longrightarrow> send (i + k) \<noteq> Delivered) \<Longrightarrow>
   send_loop send channel sd i batch latest_ts
   = (map (\<lambda>c. (channel, render_msg sd c)) (take k batch),
      if k = 0 then latest_ts else Some (readableAt (batch ! (k - 1))))"
proof (induction batch arbitrary: i k latest_ts)
  case Nil
  then show ?case by simp
next
  case (Cons ch rest)
  show ?case
  proof (cases k)
    case 0
    with Cons.prems show ?thesis by (simp split: send_result.splits)
  next
    case (Suc k')
    with Cons.prems have d: "send i = Delivered"
      by (metis add.right_neutral zero_less_Suc)
    have 1: "k' \<le> length rest" using Cons.prems(1) Suc by simp
    have 2: "\<forall>j<k'. send (Suc i + j) = Delivered"
      using Cons.prems(2) Suc by (metis Suc_less_eq add_Suc_shift)
    have 3: "k' < length rest \<longrightarrow> send (Suc i + k') \<noteq> Delivered"
      using Cons.prems(3) Suc by simp
    from Cons.IH [OF 1 2 3, of "Some (readableAt ch)"] d Suc show ?thesis
      by (cases k') (simp_all add: Let_def)
  qed
qed

text \<open>
  C2. For a series with a watermark whose fetch returns a non-empty batch, when the
  first \<open>k\<close> sends are delivered and the next one fails, whatever the failure: the run
  goes on without an exception, exactly the messages of the first \<open>k\<close> chapters of the
  batch are delivered, in order, and the watermark of the series is the \<open>readableAt\<close> of
  the \<open>k\<close>-th chapter, or the old watermark when \<open>k = 0\<close>.
\<close>

theorem partial_delivery_commit:
  assumes "truthy (last_seen_ts sd)"
    and "map_of (mem w) gid = Some g"
    and "fetch_latest_for_series fi (http e gid) series_id (last_seen_ts sd) = Inr batch"
    and "k < length batch"
    and "\<forall>i<k. channel_send e gid series_id i = Delivered"
    and "channel_send e gid series_id k \<noteq> Delivered"
  shows "snd (process_series fi e gid channel series_id sd w) = None
         \<and> sent (fst (process_series fi e gid channel series_id sd w))
           = sent w @ map (\<lambda>c. (channel, render_msg sd c)) (take k batch)
         \<and> item_at (mem (fst (process_series fi e gid channel series_id sd w))) gid series_id
           = Some (sd\<lparr>last_seen_ts :=
                        (if k = 0 then last_seen_ts sd else Some (readableAt (batch ! (k - 1))))\<rparr>)"
proof -
  let ?latest = "if k = 0 then last_seen_ts sd else Some (readableAt (batch ! (k - 1)))"
  from assms(4) have ne: "batch \<noteq> []" by auto
  have loop: "send_loop (channel_send e gid series_id) channel sd 0 batch (last_seen_ts sd)
              = (map (\<lambda>c. (channel, render_msg sd c)) (take k batch), ?latest)"
    using assms(4,5,6) by (intro send_loop_prefix) auto
  have dropped: "\<And>c. c \<in> set batch \<Longrightarrow> readableAt c \<noteq> []"
    using fetch_readableAt [OF assms(3)] by blast
  have "truthy ?latest"
    using assms(1,4) dropped by (auto simp: truthy_def)
  then have "process_series fi e gid channel series_id sd w
        = (w\<lparr>sent := sent w @ map (\<lambda>c. (channel, render_msg sd c)) (take k batch),
             mem := store_sdata gid series_id (sd\<lparr>last_seen_ts := ?latest\<rparr>) (mem w)\<rparr>, None)"
    using assms(1,3) ne loop by (simp add: process_series_def Let_def)
  then show ?thesis
    by (simp add: item_at_store_sdata [OF assms(2)])
qed

theorem partial_delivery_commit_witness:
  "snd (process_series iso_example example_env ''1'' 5 ''S1''
          (example_sdata (Some ''2024-05-01T00:00:00Z'')) (example_world (Some ''2024-05-01T00:00:00Z''))) = None
   \<and> sent (fst (process_series iso_example example_env ''1'' 5 ''S1''
          (example_sdata (Some ''2024-05-01T00:00:00Z'')) (example_world (Some ''2024-05-01T00:00:00Z''))))
     = [(5, render_msg (example_sdata (Some ''2024-05-01T00:00:00Z''))
              (mk_chapter ''a'' ''10'' ''2024-05-02T00:00:00Z''))]
   \<and> item_at (mem (fst (process_series iso_example example_env ''1'' 5 ''S1''
          (example_sdata (Some ''2024-05-01T00:00:00Z'')) (example_world (Some ''2024-05-01T00:00:00Z'')))))
        ''1'' ''S1''
     = Some (example_sdata (Some ''2024-05-02T00:00:00Z''))"
proof -
  let ?w = "Some ''2024-05-01T00:00:00Z''"
  have t: "truthy (last_seen_ts (example_sdata ?w))"
    by (simp add: truthy_def example_sdata_def)
  have g: "map_of (mem (example_world ?w)) ''1''
           = Some \<lparr>announce_channel_id = Some 5, tracked_series = [(''S1'', example_sdata ?w)]\<rparr>"
    by (simp add: example_world_def)
  have f: "fetch_latest_for_series iso_example (http example_env ''1'') ''S1'' (last_seen_ts (example_sdata ?w))
           = Inr [mk_chapter ''a'' ''10'' ''2024-05-02T00:00:00Z'', mk_chapter ''b'' ''11'' ''2024-05-03T00:00:00Z'']"
    using example_fetch_new by (simp add: example_sdata_def)
  have k: "(1::nat) < length [mk_chapter ''a'' ''10'' ''2024-05-02T00:00:00Z'', mk_chapter ''b'' ''11'' ''2024-05-03T00:00:00Z'']"
    by simp
  have d: "\<forall>i<1::nat. channel_send example_env ''1'' ''S1'' i = Delivered"
    by (simp add: example_env_def)
  have n: "channel_send example_env ''1'' ''S1'' 1 \<noteq> Delivered"
    by (simp add: example_env_def)
  from partial_delivery_commit [OF t g f k d n, of 5] show ?thesis
    by (simp add: example_world_def example_sdata_def mk_chapter_def)
qed

subsection \<open>The watermark over runs of the task\<close>

lemma dt_le_trans: "dt_le a b = Inr True \<Longrightarrow> dt_le b c = Inr True \<Longrightarrow> dt_le a c = Inr True"
  by (cases a; cases b; cases c) auto

lemma dt_le_flip: "dt_le a b = Inr False \<Longrightarrow> dt_le b a = Inr True"
  by (cases a; cases b) auto

lemma wm_le_refl [simp]: "wm_le fi a a"
  by (simp add: wm_le_def)

lemma wm_le_trans: "wm_le fi a b \<Longrightarrow> wm_le fi b c \<Longrightarrow> wm_le fi a c"
  unfolding wm_le_def
  by (auto split: option.splits sum.splits dest: dt_le_trans)

lemma advances_refl [simp]: "advances fi d d"
  by (auto simp: advances_def)

lemma advances_trans: "advances fi d1 d2 \<Longrightarrow> advances fi d2 d3 \<Longrightarrow> advances fi d1 d3"
  unfolding advances_def by (meson wm_le_trans)

lemma advances_store_sdata:
  assumes "map_of d gid = Some g" and "item_at d gid series_id = Some sd"
    and "wm_le fi (last_seen_ts sd) ts"
  shows "advances fi d (store_sdata gid series_id (sd\<lparr>last_seen_ts := ts\<rparr>) d)"
  using assms(2,3) by (auto simp: advances_def item_at_store_sdata [OF assms(1)])

lemma advances_get_guild_data: "advances fi d (snd (get_guild_data guild_id d))"
  by (simp add: advances_def item_at_get_guild_data)

lemma send_loop_latest:
  "snd (send_loop send channel sd i batch latest_ts) = latest_ts
   \<or> (\<exists>c \<in> set batch. snd (send_loop send channel sd i batch latest_ts) = Some (readableAt c))"
proof (induction batch arbitrary: i latest_ts)
  case Nil
  then show ?case by simp
next
  case (Cons ch rest)
  show ?case
  proof (cases "send i")
    case Delivered
    with Cons [of "Suc i" "Some (readableAt ch)"] show ?thesis by (auto simp: Let_def)
  qed simp_all
qed

lemma fetch_newer:
  assumes "truthy since_ts"
    and "fetch_latest_for_series fi session manga_id since_ts = Inr batch"
    and "c \<in> set batch"
  shows "wm_le fi since_ts (Some (readableAt c))"
proof -
  from assms(1) obtain s where s: "since_ts = Some s" "s \<noteq> []"
    by (auto simp: truthy_def split: option.splits)
  from fetch_Inr [OF assms(2)] obtain items since_dt where
    sd: "since_dt_of fi since_ts = Inr since_dt"
    and b: "batch = sort_key (sort_val fi) (filter (newer fi since_dt) (candidates items))"
    by auto
  from since_dt_of_Some [OF s(2)] sd s(1) obtain wd where
    wd: "parse_iso fi s = Inr wd" "since_dt = Some wd"
    by blast
  from b assms(3) wd(2) have "newer fi (Some wd) c" by simp
  then obtain d where "parse_iso fi (readableAt c) = Inr d" "dt_le d wd = Inr False"
    by (auto simp: newer_def split: sum.splits)
  with wd(1) s fetch_readableAt [OF assms(2,3)] show ?thesis
    by (simp add: wm_le_def truthy_def dt_le_flip)
qed

lemma process_series_mem:
  "mem (fst (process_series fi e gid channel series_id sd w)) = mem w
   \<or> (\<exists>ts. wm_le fi (last_seen_ts sd) ts
          \<and> mem (fst (process_series fi e gid channel series_id sd w))
            = store_sdata gid series_id (sd\<lparr>last_seen_ts := ts\<rparr>) (mem w))"
proof (cases "truthy (last_seen_ts sd)")
  case False
  then have "\<And>ts. wm_le fi (last_seen_ts sd) ts"
    by (simp add: wm_le_def)
  with False show ?thesis
    by (auto simp: process_series_def Let_def split: sum.splits)
next
  case True
  show ?thesis
  proof (cases "fetch_latest_for_series fi (http e gid) series_id (last_seen_ts sd)")
    case (Inl ex)
    with True show ?thesis by (simp add: process_series_def)
  next
    case (Inr batch)
    let ?r = "send_loop (channel_send e gid series_id) channel sd 0 batch (last_seen_ts sd)"
    have "wm_le fi (last_seen_ts sd) (snd ?r)"
      using send_loop_latest [of "channel_send e gid series_id" channel sd 0 batch "last_seen_ts sd"]
        fetch_newer [OF True Inr]
      by auto
    with True Inr show ?thesis
      by (auto simp: process_series_def Let_def)
  qed
qed

lemma map_of_store_sdata:
  "map_of d gid' = Some g \<Longrightarrow> \<exists>g'. map_of (store_sdata gid series_id sd d) gid' = Some g'"
  by (auto simp: store_sdata_def map_of_map_entry split: option.splits)

lemma process_series_guild:
  "map_of (mem w) gid' = Some g \<Longrightarrow>
   \<exists>g'. map_of (mem (fst (process_series fi e gid channel series_id sd w))) gid' = Some g'"
  using process_series_mem [of fi e gid channel series_id sd w]
    map_of_store_sdata [of "mem w" gid' g gid series_id]
  by auto

lemma process_series_advances:
  assumes "map_of (mem w) gid = Some g" and "item_at (mem w) gid series_id = Some sd"
  shows "advances fi (mem w) (mem (fst (process_series fi e gid channel series_id sd w)))"
  using process_series_mem [of fi e gid channel series_id sd w]
  by (auto intro: advances_store_sdata [OF assms])

lemma process_series_other:
  assumes "map_of (mem w) gid = Some g" and "series_id' \<noteq> series_id"
  shows "item_at (mem (fst (process_series fi e gid channel series_id sd w))) gid series_id'
         = item_at (mem w) gid series_id'"
  using process_series_mem [of fi e gid channel series_id sd w] assms(2)
  by (auto simp: item_at_store_sdata [OF assms(1)])

lemma series_loop_advances:
  assumes "distinct (map fst kvs)"
    and "\<forall>kv \<in> set kvs. item_at (mem w) gid (fst kv) = Some (snd kv)"
    and "map_of (mem w) gid = Some g"
  shows "advances fi (mem w) (mem (fst (series_loop fi e gid channel kvs w)))"
  using assms
proof (induction kvs arbitrary: w g)
  case Nil
  then show ?case by simp
next
  case (Cons kv rest)
  let ?p = "process_series fi e gid channel (fst kv) (snd kv) w"
  from Cons.prems have kv: "item_at (mem w) gid (fst kv) = Some (snd kv)" by simp
  have a: "advances fi (mem w) (mem (fst ?p))"
    using process_series_advances [OF Cons.prems(3) kv] .
  show ?case
  proof (cases "snd ?p")
    case (Some ex)
    then have "series_loop fi e gid channel (kv # rest) w = ?p"
      by (cases ?p) simp
    with a show ?thesis by simp
  next
    case None
    then have l: "series_loop fi e gid channel (kv # rest) w = series_loop fi e gid channel rest (fst ?p)"
      by (cases ?p) simp
    from process_series_guild [OF Cons.prems(3)] obtain g' where
      g': "map_of (mem (fst ?p)) gid = Some g'" by blast
    have "\<forall>kv' \<in> set rest. item_at (mem (fst ?p)) gid (fst kv') = Some (snd kv')"
    proof
      fix kv' assume m: "kv' \<in> set rest"
      with Cons.prems(1) have "fst kv' \<noteq> fst kv" by (metis distinct.simps(2) image_eqI list.simps(9) set_map)
      with process_series_other [OF Cons.prems(3)] Cons.prems(2) m show
        "item_at (mem (fst ?p)) gid (fst kv') = Some (snd kv')" by simp
    qed
    with Cons.IH [of "fst ?p" g'] Cons.prems(1) g'
    have "advances fi (mem (fst ?p)) (mem (fst (series_loop fi e gid channel rest (fst ?p))))"
      by simp
    with a l show ?thesis by (auto intro: advances_trans)
  qed
qed

lemma set_update_cases:
  "kv \<in> set (AList.update k v al) \<Longrightarrow> kv = (k, v) \<or> kv \<in> set al"
  by (induction al) (auto split: if_splits)

lemma set_map_entry_cases:
  "kv \<in> set (AList.map_entry k f al) \<Longrightarrow> kv \<in> set al \<or> (\<exists>v. (k, v) \<in> set al \<and> kv = (k, f v))"
  by (induction al) (auto split: if_splits)

lemma wf_store_sdata: "wf_data d \<Longrightarrow> wf_data (store_sdata gid series_id sd d)"
  unfolding wf_data_def store_sdata_def
  by (auto simp: distinct_map_entry distinct_update dest!: set_map_entry_cases)

lemma wf_get_guild_data: "wf_data d \<Longrightarrow> wf_data (snd (get_guild_data guild_id d))"
  unfolding wf_data_def get_guild_data_def
  by (auto simp: Let_def distinct_update split: option.splits dest!: set_update_cases)

lemma process_series_wf:
  "wf_data (mem w) \<Longrightarrow> wf_data (mem (fst (process_series fi e gid channel series_id sd w)))"
  using process_series_mem [of fi e gid channel series_id sd w]
  by (auto intro: wf_store_sdata)

lemma series_loop_wf:
  "wf_data (mem w) \<Longrightarrow> wf_data (mem (fst (series_loop fi e gid channel kvs w)))"
proof (induction kvs arbitrary: w)
  case Nil
  then show ?case by simp
next
  case (Cons kv rest)
  let ?p = "process_series fi e gid channel (fst kv) (snd kv) w"
  from Cons.prems have "wf_data (mem (fst ?p))" by (rule process_series_wf)
  with Cons.IH [of "fst ?p"] show ?case
    by (cases ?p) (auto split: option.splits)
qed

lemma check_guild_mem:
  "mem (fst (check_guild fi e guild_id w)) = snd (get_guild_data guild_id (mem w))
   \<or> mem (fst (check_guild fi e guild_id w))
     = mem (fst (series_loop fi e (str_int guild_id)
                   (case announce_channel_id (fst (get_guild_data guild_id (mem w))) of None \<Rightarrow> 0 | Some c \<Rightarrow> c)
                   (tracked_series (fst (get_guild_data guild_id (mem w))))
                   (w\<lparr>mem := snd (get_guild_data guild_id (mem w))\<rparr>)))"
  by (auto simp: check_guild_def Let_def split: option.splits prod.splits
           dest: arg_cong [where f = "\<lambda>r. mem (fst r)"])

lemma check_guild_wf:
  "wf_data (mem w) \<Longrightarrow> wf_data (mem (fst (check_guild fi e guild_id w)))"
  using check_guild_mem [of fi e guild_id w]
    series_loop_wf [of "w\<lparr>mem := snd (get_guild_data guild_id (mem w))\<rparr>"]
  by (auto simp: wf_get_guild_data)

lemma check_guild_advances:
  assumes "wf_data (mem w)"
  shows "advances fi (mem w) (mem (fst (check_guild fi e guild_id w)))"
proof -
  let ?gd = "get_guild_data guild_id (mem w)"
  let ?w1 = "w\<lparr>mem := snd ?gd\<rparr>"
  let ?gid = "str_int guild_id"
  have a1: "advances fi (mem w) (mem ?w1)"
    by (simp add: advances_get_guild_data)
  have g: "map_of (mem ?w1) ?gid = Some (fst ?gd)"
    by (simp add: get_guild_data_lookup)
  have wf1: "wf_data (mem ?w1)"
    using assms by (simp add: wf_get_guild_data)
  from g have "(?gid, fst ?gd) \<in> set (mem ?w1)"
    by (rule map_of_SomeD)
  with wf1 have d: "distinct (map fst (tracked_series (fst ?gd)))"
    by (auto simp: wf_data_def)
  then have t: "\<forall>kv \<in> set (tracked_series (fst ?gd)). item_at (mem ?w1) ?gid (fst kv) = Some (snd kv)"
    using g by (auto simp: item_at_def)
  have "advances fi (mem ?w1) (mem (fst (series_loop fi e ?gid channel (tracked_series (fst ?gd)) ?w1)))" for channel
    using series_loop_advances [OF d t g] .
  with a1 check_guild_mem [of fi e guild_id w] show ?thesis
    by (auto intro: advances_trans)
qed

lemma guild_loop_advances:
  "wf_data (mem w) \<Longrightarrow>
   advances fi (mem w) (mem (fst (guild_loop fi e guild_ids w)))
   \<and> wf_data (mem (fst (guild_loop fi e guild_ids w)))"
proof (induction guild_ids arbitrary: w)
  case Nil
  then show ?case by simp
next
  case (Cons guild_id rest)
  let ?c = "check_guild fi e guild_id w"
  have a: "advances fi (mem w) (mem (fst ?c))"
    using Cons.prems by (rule check_guild_advances)
  have wf: "wf_data (mem (fst ?c))"
    using Cons.prems by (rule check_guild_wf)
  show ?case
  proof (cases "snd ?c")
    case (Some ex)
    then have "guild_loop fi e (guild_id # rest) w = ?c"
      by (cases ?c) simp
    with a wf show ?thesis by simp
  next
    case None
    then have "guild_loop fi e (guild_id # rest) w = guild_loop fi e rest (fst ?c)"
      by (cases ?c) simp
    with Cons.IH [OF wf] a show ?thesis
      by (auto intro: advances_trans)
  qed
qed

lemma poll_cycles_advances:
  "wf_data (mem w) \<Longrightarrow>
   advances fi (mem w) (mem (poll_cycles fi es w)) \<and> wf_data (mem (poll_cycles fi es w))"
proof (induction es arbitrary: w)
  case Nil
  then show ?case by simp
next
  case (Cons e es)
  let ?c = "fst (check_releases fi e w)"
  from guild_loop_advances [OF Cons.prems, of fi e "bot_guilds e"]
  have a: "advances fi (mem w) (mem ?c)" and wf: "wf_data (mem ?c)"
    by (simp_all add: check_releases_def)
  from Cons.IH [OF wf] a show ?case
    by (auto intro: advances_trans)
qed

lemma poll_cycles_append: "poll_cycles fi (es1 @ es2) w = poll_cycles fi es2 (poll_cycles fi es1 w)"
  by (induction es1 arbitrary: w) simp_all

text \<open>
  C1. Take any sequence of runs of the task, whatever the index answers, whichever
  sends and writes fail, and any two moments of it, after the runs \<open>es1\<close> and after the
  further runs \<open>es2\<close>. A series tracked at the start is tracked at both moments, and its
  watermark at the later moment is not earlier than at the first one.
\<close>

theorem watermark_monotonic:
  assumes "wf_data (mem w)"
    and "item_at (mem w) gid series_id = Some sd"
  shows "\<exists>sd1 sd2.
           item_at (mem (poll_cycles fi es1 w)) gid series_id = Some sd1
           \<and> item_at (mem (poll_cycles fi (es1 @ es2) w)) gid series_id = Some sd2
           \<and> wm_le fi (last_seen_ts sd) (last_seen_ts sd1)
           \<and> wm_le fi (last_seen_ts sd1) (last_seen_ts sd2)"
proof -
  let ?w1 = "poll_cycles fi es1 w"
  from poll_cycles_advances [OF assms(1), of fi es1]
  have a1: "advances fi (mem w) (mem ?w1)" and wf1: "wf_data (mem ?w1)"
    by simp_all
  from a1 assms(2) obtain sd1 where
    1: "item_at (mem ?w1) gid series_id = Some sd1" "wm_le fi (last_seen_ts sd) (last_seen_ts sd1)"
    unfolding advances_def by blast
  from poll_cycles_advances [OF wf1, of fi es2]
  have "advances fi (mem ?w1) (mem (poll_cycles fi (es1 @ es2) w))"
    by (simp add: poll_cycles_append)
  with 1(1) obtain sd2 where
    "item_at (mem (poll_cycles fi (es1 @ es2) w)) gid series_id = Some sd2"
    "wm_le fi (last_seen_ts sd1) (last_seen_ts sd2)"
    unfolding advances_def by blast
  with 1 show ?thesis by blast
qed

lemma str_int_1: "str_int 1 = ''1''"
  by code_simp

lemma example_fetch_after:
  "fetch_latest_for_series iso_example (http example_env ''1'') ''S1'' (Some ''2024-05-02T00:00:00Z'')
   = Inr [mk_chapter ''b'' ''11'' ''2024-05-03T00:00:00Z'']"
  by (simp add: example_env_def fetch_latest_for_series_def since_dt_of_def scan_item_def scan_fields_def readable_at_def
        respond_def mk_item_def mk_chapter_def chapter_of_def parse_iso_def endswith_def iso_example_def
        sort_chapters_def aware_key_def suffix_to_prefix sort_val_def)

lemma example_first_run:
  "mem (fst (check_releases iso_example example_env (example_world (Some ''2024-05-01T00:00:00Z''))))
   = mem (example_world (Some ''2024-05-02T00:00:00Z''))"
  using example_fetch_new
  by (simp add: check_releases_def check_guild_def get_guild_data_def str_int_1 example_world_def
        example_sdata_def process_series_def truthy_def Let_def store_sdata_def mk_chapter_def
        example_env_def save_data_def)

lemma example_two_runs:
  "mem (poll_cycles iso_example [example_env, example_env] (example_world (Some ''2024-05-01T00:00:00Z'')))
   = mem (example_world (Some ''2024-05-03T00:00:00Z''))"
  using example_fetch_new example_fetch_after
  by (simp add: check_releases_def check_guild_def get_guild_data_def str_int_1 example_world_def
        example_sdata_def process_series_def truthy_def Let_def store_sdata_def mk_chapter_def
        example_env_def save_data_def)

theorem watermark_monotonic_witness:
  "item_at (mem (poll_cycles iso_example [example_env] (example_world (Some ''2024-05-01T00:00:00Z''))))
     ''1'' ''S1'' = Some (example_sdata (Some ''2024-05-02T00:00:00Z''))
   \<and> item_at (mem (poll_cycles iso_example ([example_env] @ [example_env])
                      (example_world (Some ''2024-05-01T00:00:00Z''))))
     ''1'' ''S1'' = Some (example_sdata (Some ''2024-05-03T00:00:00Z''))
   \<and> wm_le iso_example (Some ''2024-05-01T00:00:00Z'') (Some ''2024-05-02T00:00:00Z'')
   \<and> wm_le iso_example (Some ''2024-05-02T00:00:00Z'') (Some ''2024-05-03T00:00:00Z'')"
proof -
  let ?w = "example_world (Some ''2024-05-01T00:00:00Z'')"
  have wf: "wf_data (mem ?w)"
    by (simp add: wf_data_def example_world_def)
  have it: "item_at (mem ?w) ''1'' ''S1'' = Some (example_sdata (Some ''2024-05-01T00:00:00Z''))"
    by (simp add: item_at_def example_world_def)
  have r1: "item_at (mem (poll_cycles iso_example [example_env] ?w)) ''1'' ''S1''
            = Some (example_sdata (Some ''2024-05-02T00:00:00Z''))"
    using example_first_run by (simp add: item_at_def example_world_def)
  have r2: "item_at (mem (poll_cycles iso_example ([example_env] @ [example_env]) ?w)) ''1'' ''S1''
            = Some (example_sdata (Some ''2024-05-03T00:00:00Z''))"
    using example_two_runs by (simp add: item_at_def example_world_def)
  from watermark_monotonic [OF wf it, of iso_example "[example_env]" "[example_env]"]
  obtain sd1 sd2 where
    "item_at (mem (poll_cycles iso_example [example_env] ?w)) ''1'' ''S1'' = Some sd1"
    "item_at (mem (poll_cycles iso_example ([example_env] @ [example_env]) ?w)) ''1'' ''S1'' = Some sd2"
    "wm_le iso_example (last_seen_ts (example_sdata (Some ''2024-05-01T00:00:00Z''))) (last_seen_ts sd1)"
    "wm_le iso_example (last_seen_ts sd1) (last_seen_ts sd2)"
    by blast
  with r1 r2 show ?thesis
    by (auto simp: example_sdata_def)
qed

subsection \<open>Storage\<close>

lemma update_fresh: "k \<notin> fst ` set al \<Longrightarrow> AList.update k v al = al @ [(k, v)]"
  by (induction al) auto

lemma foldl_update_distinct:
  "distinct (map fst (acc @ kvs)) \<Longrightarrow>
   foldl (\<lambda>d kv. AList.update (fst kv) (snd kv) d) acc kvs = acc @ kvs"
proof (induction kvs arbitrary: acc)
  case Nil
  then show ?case by simp
next
  case (Cons kv kvs)
  from Cons.prems have "fst kv \<notin> fst ` set acc" by auto
  then have "AList.update (fst kv) (snd kv) acc = acc @ [kv]"
    by (simp add: update_fresh)
  with Cons.IH [of "acc @ [kv]"] Cons.prems show ?case by simp
qed

lemma dict_of_distinct: "distinct (map fst kvs) \<Longrightarrow> dict_of kvs = kvs"
  using foldl_update_distinct [of "[]" kvs] by (simp add: dict_of_def)

lemma json_roundtrip: "json_clean v \<Longrightarrow> json_load (json_dump v) = v"
proof (induction v)
  case (PDict kvs)
  have "map (\<lambda>kv. (KStr (fst kv), json_load (snd kv)))
          (map (\<lambda>kv. (key_str (fst kv), json_dump (snd kv))) kvs) = kvs"
  proof -
    have "(KStr (key_str (fst kv)), json_load (json_dump (snd kv))) = kv" if "kv \<in> set kvs" for kv
    proof -
      from that PDict.prems have k: "case fst kv of KStr s \<Rightarrow> True | KInt i \<Rightarrow> False"
        and c: "json_clean (snd kv)"
        by auto
      from k obtain s where "fst kv = KStr s"
        by (cases "fst kv") auto
      moreover have "json_load (json_dump (snd kv)) = snd kv"
        using PDict.IH [OF that _ c] by (cases kv) simp
      ultimately show ?thesis by (cases kv) simp
    qed
    then show ?thesis by (simp add: map_idI)
  qed
  moreover from PDict.prems have "distinct (map fst kvs)" by simp
  ultimately show ?case by (simp add: dict_of_distinct)
qed simp_all

lemma json_clean_py_sdata: "json_clean (py_sdata sd)"
  by (simp add: py_sdata_def py_opt_str_def split: option.splits)

lemma distinct_KStr_keys:
  "distinct (map fst kvs) \<Longrightarrow> distinct (map fst (map (\<lambda>kv. (KStr (fst kv), f (snd kv))) kvs))"
  by (simp add: distinct_map comp_def inj_on_def)

lemma json_clean_py_gdata:
  "distinct (map fst (tracked_series g)) \<Longrightarrow> json_clean (py_gdata g)"
  using distinct_KStr_keys [of "tracked_series g" py_sdata]
  by (auto simp: py_gdata_def py_opt_int_def json_clean_py_sdata split: option.splits)

lemma json_clean_py_data: "wf_data d \<Longrightarrow> json_clean (py_data d)"
  using distinct_KStr_keys [of d py_gdata]
  by (auto simp: py_data_def wf_data_def json_clean_py_gdata)

lemma wf_data_empty: "wf_data []"
  by (simp add: wf_data_def)

lemma wf_set_announce_channel:
  "wf_data (mem w) \<Longrightarrow> wf_data (mem (fst (set_announce_channel wr guild_id channel_id mention w)))"
proof -
  assume wf: "wf_data (mem w)"
  let ?gd = "get_guild_data guild_id (mem w)"
  let ?d = "AList.update (str_int guild_id) ((fst ?gd)\<lparr>announce_channel_id := Some channel_id\<rparr>) (snd ?gd)"
  have m: "mem (fst (set_announce_channel wr guild_id channel_id mention w)) = ?d"
    by (cases wr) (simp_all add: set_announce_channel_def Let_def save_data_def)
  from wf have wf1: "wf_data (snd ?gd)" by (rule wf_get_guild_data)
  have "(str_int guild_id, fst ?gd) \<in> set (snd ?gd)"
    using get_guild_data_lookup by (rule map_of_SomeD)
  with wf1 have "distinct (map fst (tracked_series (fst ?gd)))"
    by (auto simp: wf_data_def)
  with wf1 have "wf_data ?d"
    unfolding wf_data_def by (auto simp: distinct_update dest!: set_update_cases)
  with m show ?thesis by simp
qed

lemma wf_track_series:
  "wf_data (mem w) \<Longrightarrow> wf_data (mem (fst (track_series wr guild_id arg role role_mention nm w)))"
proof -
  assume wf: "wf_data (mem w)"
  let ?gd = "get_guild_data guild_id (mem w)"
  let ?t = "track_series wr guild_id arg role role_mention nm w"
  have "mem (fst ?t) = snd ?gd
        \<or> (\<exists>sd. mem (fst ?t) = store_sdata (str_int guild_id) (extract_mangadex_id arg) sd (snd ?gd))"
    by (cases wr) (auto simp: track_series_def Let_def save_data_def split: option.splits)
  with wf_get_guild_data [OF wf, of guild_id] show ?thesis
    by (auto intro: wf_store_sdata)
qed

lemma wf_untrack_series:
  "wf_data (mem w) \<Longrightarrow> wf_data (mem (fst (untrack_series wr guild_id arg w)))"
proof -
  assume wf: "wf_data (mem w)"
  let ?gd = "get_guild_data guild_id (mem w)"
  let ?u = "untrack_series wr guild_id arg w"
  let ?d = "AList.map_entry (str_int guild_id)
              (\<lambda>g. g\<lparr>tracked_series := AList.delete (extract_mangadex_id arg) (tracked_series g)\<rparr>) (snd ?gd)"
  have m: "mem (fst ?u) = snd ?gd \<or> mem (fst ?u) = ?d"
    by (cases wr) (auto simp: untrack_series_def Let_def save_data_def split: option.splits)
  from wf have wf1: "wf_data (snd ?gd)" by (rule wf_get_guild_data)
  then have "wf_data ?d"
    unfolding wf_data_def
    by (auto simp: distinct_map_entry distinct_delete dest!: set_map_entry_cases)
  with m wf1 show ?thesis by auto
qed

text \<open>
  C9. For a state whose dictionaries have distinct keys, as every state reached from the
  empty one by the commands and the task has, a successful \<open>save_data\<close> followed by
  \<open>load_data\<close> returns the value that was saved.
\<close>

theorem save_load_roundtrip:
  assumes "wf_data (mem w)"
  shows "load_data (disk (fst (save_data WriteOk w))) = Inr (py_data (mem w))"
proof -
  have "disk (fst (save_data WriteOk w)) = Stored (json_dump (py_data (mem w)))"
    by (simp add: save_data_def)
  then have "load_data (disk (fst (save_data WriteOk w))) = Inr (json_load (json_dump (py_data (mem w))))"
    by (simp add: load_data_def)
  moreover from assms have "json_clean (py_data (mem w))"
    by (rule json_clean_py_data)
  ultimately show ?thesis
    by (simp add: json_roundtrip)
qed

theorem save_load_roundtrip_witness:
  "load_data (disk (fst (save_data WriteOk (example_world (Some ''2024-05-01T00:00:00Z'')))))
   = Inr (PDict [(KStr ''guilds'',
            PDict [(KStr ''1'',
              PDict [(KStr ''announce_channel_id'', PInt 5),
                     (KStr ''tracked_series'',
                      PDict [(KStr ''S1'',
                        PDict [(KStr ''name'', PStr ''S1''),
                               (KStr ''last_seen_ts'', PStr ''2024-05-01T00:00:00Z''),
                               (KStr ''role_id'', PInt 9)])])])])])"
proof -
  have wf: "wf_data (mem (example_world (Some ''2024-05-01T00:00:00Z'')))"
    by (simp add: wf_data_def example_world_def)
  from save_load_roundtrip [OF wf] show ?thesis
    by (simp add: example_world_def example_sdata_def py_data_def py_gdata_def py_sdata_def
          py_opt_int_def py_opt_str_def)
qed

subsection \<open>A write that fails\<close>

lemma series_loop_append:
  "series_loop fi e gid channel (kvs1 @ kvs2) w
   = (case series_loop fi e gid channel kvs1 w of
        (w', Some ex) \<Rightarrow> (w', Some ex)
      | (w', None) \<Rightarrow> series_loop fi e gid channel kvs2 w')"
  by (induction kvs1 arbitrary: w) (auto split: prod.splits option.splits)

lemma guild_loop_append:
  "guild_loop fi e (gs1 @ gs2) w
   = (case guild_loop fi e gs1 w of
        (w', Some ex) \<Rightarrow> (w', Some ex)
      | (w', None) \<Rightarrow> guild_loop fi e gs2 w')"
  by (induction gs1 arbitrary: w) (auto split: prod.splits option.splits)

lemma save_data_fails:
  "r \<noteq> WriteOk \<Longrightarrow>
   snd (save_data r w) = Some OSError \<and> mem (fst (save_data r w)) = mem w
   \<and> sent (fst (save_data r w)) = sent w
   \<and> (disk (fst (save_data r w)) = disk w \<or> disk (fst (save_data r w)) = Truncated)"
  by (cases r) (simp_all add: save_data_def)

text \<open>
  C7, as the code has it. Let the guilds before \<open>guild_id\<close> be processed without an
  exception, and let \<open>guild_id\<close> have a channel that resolves. If the write that ends
  the guild fails, or if the write after priming one of its series fails, the run ends
  there with \<open>OSError\<close>: its result does not depend on the series and guilds that
  follow, the memory keeps what the run has set so far, the watermark of the primed
  series included, and the data file is as it was or cut short.
\<close>

theorem save_failure_propagates:
  assumes "bot_guilds e = gs1 @ guild_id # gs2"
    and "guild_loop fi e gs1 w = (w1, None)"
    and "get_guild_data guild_id (mem w1) = (g, d1)"
    and "announce_channel_id g = Some channel_id"
    and "channel_id \<noteq> 0"
    and "get_channel e channel_id \<or> fetch_channel e channel_id"
  shows "(tracked_series g \<noteq> []
          \<and> series_loop fi e (str_int guild_id) channel_id (tracked_series g) (w1\<lparr>mem := d1\<rparr>) = (w2, None)
          \<and> write_file e (str_int guild_id) None \<noteq> WriteOk
          \<longrightarrow> snd (check_releases fi e w) = Some OSError
              \<and> mem (fst (check_releases fi e w)) = mem w2
              \<and> sent (fst (check_releases fi e w)) = sent w2
              \<and> (disk (fst (check_releases fi e w)) = disk w2
                   \<or> disk (fst (check_releases fi e w)) = Truncated))
         \<and> (tracked_series g = kvs1 @ (series_id, sd) # kvs2
          \<and> series_loop fi e (str_int guild_id) channel_id kvs1 (w1\<lparr>mem := d1\<rparr>) = (w2, None)
          \<and> \<not> truthy (last_seen_ts sd)
          \<and> fetch_latest_for_series fi (http e (str_int guild_id)) series_id None = Inr all_recent
          \<and> all_recent \<noteq> []
          \<and> write_file e (str_int guild_id) (Some series_id) \<noteq> WriteOk
          \<longrightarrow> snd (check_releases fi e w) = Some OSError
              \<and> mem (fst (check_releases fi e w))
                = store_sdata (str_int guild_id) series_id
                    (sd\<lparr>last_seen_ts := Some (readableAt (last all_recent))\<rparr>) (mem w2)
              \<and> sent (fst (check_releases fi e w)) = sent w2
              \<and> (disk (fst (check_releases fi e w)) = disk w2
                   \<or> disk (fst (check_releases fi e w)) = Truncated))"
proof -
  let ?gid = "str_int guild_id"
  let ?cr = "check_releases fi e w"
  have cr: "?cr = (case check_guild fi e guild_id w1 of
                     (w', Some ex) \<Rightarrow> (w', Some ex)
                   | (w', None) \<Rightarrow> guild_loop fi e gs2 w')"
    using assms(1,2) by (simp add: check_releases_def guild_loop_append)
  have ending: "snd ?cr = Some OSError \<and> mem (fst ?cr) = mem w2 \<and> sent (fst ?cr) = sent w2
                \<and> (disk (fst ?cr) = disk w2 \<or> disk (fst ?cr) = Truncated)"
    if t: "tracked_series g \<noteq> []"
      and s: "series_loop fi e ?gid channel_id (tracked_series g) (w1\<lparr>mem := d1\<rparr>) = (w2, None)"
      and f: "write_file e ?gid None \<noteq> WriteOk"
  proof -
    have "check_guild fi e guild_id w1 = save_data (write_file e ?gid None) w2"
      using assms(3-6) t s by (auto simp: check_guild_def)
    with cr save_data_fails [OF f, of w2]
    have "?cr = save_data (write_file e ?gid None) w2"
      by (cases "save_data (write_file e ?gid None) w2") simp
    with save_data_fails [OF f, of w2] show ?thesis
      by simp
  qed
  have priming: "snd ?cr = Some OSError
        \<and> mem (fst ?cr) = store_sdata ?gid series_id
                             (sd\<lparr>last_seen_ts := Some (readableAt (last all_recent))\<rparr>) (mem w2)
        \<and> sent (fst ?cr) = sent w2
        \<and> (disk (fst ?cr) = disk w2 \<or> disk (fst ?cr) = Truncated)"
    if t: "tracked_series g = kvs1 @ (series_id, sd) # kvs2"
      and s: "series_loop fi e ?gid channel_id kvs1 (w1\<lparr>mem := d1\<rparr>) = (w2, None)"
      and u: "\<not> truthy (last_seen_ts sd)"
      and a: "fetch_latest_for_series fi (http e ?gid) series_id None = Inr all_recent"
      and n: "all_recent \<noteq> []"
      and f: "write_file e ?gid (Some series_id) \<noteq> WriteOk"
  proof -
    let ?w3 = "w2\<lparr>mem := store_sdata ?gid series_id
                 (sd\<lparr>last_seen_ts := Some (readableAt (last all_recent))\<rparr>) (mem w2)\<rparr>"
    let ?r = "save_data (write_file e ?gid (Some series_id)) ?w3"
    have p: "process_series fi e ?gid channel_id series_id sd w2 = ?r"
      using u a n by (simp add: process_series_def Let_def)
    from save_data_fails [OF f, of ?w3] have e: "snd ?r = Some OSError" by simp
    have "series_loop fi e ?gid channel_id (tracked_series g) (w1\<lparr>mem := d1\<rparr>) = ?r"
      using s p e by (cases ?r) (simp add: t series_loop_append)
    then have "check_guild fi e guild_id w1 = ?r"
      using assms(3-6) t e by (cases ?r) (auto simp: check_guild_def)
    with cr e have "?cr = ?r"
      by (cases ?r) simp
    with save_data_fails [OF f, of ?w3] show ?thesis
      by simp
  qed
  from ending priming show ?thesis
    by blast
qed

lemma str_int_2: "str_int 2 = ''2''"
  by code_simp

lemma failing_fetch_new:
  "fetch_latest_for_series iso_example (http (failing_env r) gid) ''S1'' (Some ''2024-05-01T00:00:00Z'')
   = Inr [mk_chapter ''a'' ''10'' ''2024-05-02T00:00:00Z'', mk_chapter ''b'' ''11'' ''2024-05-03T00:00:00Z'']"
  by (simp add: failing_env_def example_env_def fetch_latest_for_series_def since_dt_of_def scan_item_def
        scan_fields_def readable_at_def respond_def mk_item_def mk_chapter_def chapter_of_def parse_iso_def endswith_def
        iso_example_def sort_chapters_def aware_key_def suffix_to_prefix sort_val_def)

lemma failing_fetch_all:
  "fetch_latest_for_series iso_example (http (failing_env r) gid) ''S1'' None
   = Inr [mk_chapter ''a'' ''10'' ''2024-05-02T00:00:00Z'', mk_chapter ''b'' ''11'' ''2024-05-03T00:00:00Z'']"
  by (simp add: failing_env_def example_env_def fetch_latest_for_series_def since_dt_of_def scan_item_def
        scan_fields_def readable_at_def respond_def mk_item_def mk_chapter_def chapter_of_def parse_iso_def endswith_def
        iso_example_def sort_chapters_def aware_key_def suffix_to_prefix sort_val_def)

theorem save_failure_counterexample:
  "snd (check_releases iso_example (failing_env WriteFailed) (two_guild_world (Some ''2024-05-01T00:00:00Z'')))
   = Some OSError
   \<and> item_at (mem (fst (check_releases iso_example (failing_env WriteFailed)
                          (two_guild_world (Some ''2024-05-01T00:00:00Z''))))) ''2'' ''S1''
     = Some (example_sdata (Some ''2024-05-01T00:00:00Z''))
   \<and> snd (check_releases iso_example (failing_env WriteOk) (two_guild_world (Some ''2024-05-01T00:00:00Z'')))
     = None
   \<and> item_at (mem (fst (check_releases iso_example (failing_env WriteOk)
                          (two_guild_world (Some ''2024-05-01T00:00:00Z''))))) ''2'' ''S1''
     = Some (example_sdata (Some ''2024-05-02T00:00:00Z''))"
  using failing_fetch_new [of WriteFailed] failing_fetch_new [of WriteOk]
  by (simp add: check_releases_def check_guild_def get_guild_data_def str_int_1 str_int_2
        two_guild_world_def example_sdata_def process_series_def truthy_def Let_def store_sdata_def
        mk_chapter_def failing_env_def example_env_def save_data_def item_at_def)

theorem save_failure_propagates_witness:
  "snd (check_releases iso_example (failing_env WriteFailed) (two_guild_world (Some ''2024-05-01T00:00:00Z'')))
   = Some OSError
   \<and> mem (fst (check_releases iso_example (failing_env WriteFailed)
                  (two_guild_world (Some ''2024-05-01T00:00:00Z''))))
     = [(''1'', \<lparr>announce_channel_id = Some 5,
                 tracked_series = [(''S1'', example_sdata (Some ''2024-05-02T00:00:00Z''))]\<rparr>),
        (''2'', \<lparr>announce_channel_id = Some 6,
                 tracked_series = [(''S1'', example_sdata (Some ''2024-05-01T00:00:00Z''))]\<rparr>)]
   \<and> snd (check_releases iso_example (failing_env OpenFailed) (two_guild_world None)) = Some OSError
   \<and> mem (fst (check_releases iso_example (failing_env OpenFailed) (two_guild_world None)))
     = [(''1'', \<lparr>announce_channel_id = Some 5,
                 tracked_series = [(''S1'', example_sdata (Some ''2024-05-03T00:00:00Z''))]\<rparr>),
        (''2'', \<lparr>announce_channel_id = Some 6, tracked_series = [(''S1'', example_sdata None)]\<rparr>)]"
proof -
  let ?t = "Some ''2024-05-01T00:00:00Z''"
  let ?g = "\<lambda>ts. \<lparr>announce_channel_id = Some 5, tracked_series = [(''S1'', example_sdata ts)]\<rparr>"
  let ?w2 = "\<lparr>mem = [(''1'', \<lparr>announce_channel_id = Some 5,
                         tracked_series = [(''S1'', example_sdata (Some ''2024-05-02T00:00:00Z''))]\<rparr>),
                   (''2'', \<lparr>announce_channel_id = Some 6,
                         tracked_series = [(''S1'', example_sdata ?t)]\<rparr>)],
             disk = Missing,
             sent = [(5, render_msg (example_sdata ?t) (mk_chapter ''a'' ''10'' ''2024-05-02T00:00:00Z''))]\<rparr>"
  have a1: "bot_guilds (failing_env r) = [] @ 1 # [2]" for r
    by (simp add: failing_env_def example_env_def)
  have a2: "guild_loop iso_example (failing_env r) [] (two_guild_world ts) = (two_guild_world ts, None)" for r ts
    by simp
  have a3: "get_guild_data 1 (mem (two_guild_world ts)) = (?g ts, mem (two_guild_world ts))" for ts
    by (simp add: get_guild_data_def Let_def str_int_1 two_guild_world_def)
  have a4: "announce_channel_id (?g ts) = Some 5" for ts
    by simp
  have a5: "(5::int) \<noteq> 0"
    by simp
  have a6: "get_channel (failing_env r) 5 \<or> fetch_channel (failing_env r) 5" for r
    by (simp add: failing_env_def example_env_def)
  have b1: "tracked_series (?g ?t) \<noteq> []"
    by simp
  have b2: "series_loop iso_example (failing_env WriteFailed) (str_int 1) 5 (tracked_series (?g ?t))
              ((two_guild_world ?t)\<lparr>mem := mem (two_guild_world ?t)\<rparr>) = (?w2, None)"
    using failing_fetch_new [of WriteFailed "''1''"]
    by (simp add: str_int_1 two_guild_world_def example_sdata_def process_series_def truthy_def Let_def
          store_sdata_def mk_chapter_def failing_env_def example_env_def)
  have b3: "write_file (failing_env WriteFailed) (str_int 1) None \<noteq> WriteOk"
    by (simp add: failing_env_def str_int_1)
  have c1: "tracked_series (?g None) = [] @ (''S1'', example_sdata None) # []"
    by simp
  have c2: "series_loop iso_example (failing_env OpenFailed) (str_int 1) 5 []
              ((two_guild_world None)\<lparr>mem := mem (two_guild_world None)\<rparr>) = (two_guild_world None, None)"
    by (simp add: two_guild_world_def)
  have c3: "\<not> truthy (last_seen_ts (example_sdata None))"
    by (simp add: truthy_def example_sdata_def)
  have c4: "fetch_latest_for_series iso_example (http (failing_env OpenFailed) (str_int 1)) ''S1'' None
            = Inr [mk_chapter ''a'' ''10'' ''2024-05-02T00:00:00Z'', mk_chapter ''b'' ''11'' ''2024-05-03T00:00:00Z'']"
    by (rule failing_fetch_all)
  have c5: "[mk_chapter ''a'' ''10'' ''2024-05-02T00:00:00Z'', mk_chapter ''b'' ''11'' ''2024-05-03T00:00:00Z''] \<noteq> []"
    by simp
  have c6: "write_file (failing_env OpenFailed) (str_int 1) (Some ''S1'') \<noteq> WriteOk"
    by (simp add: failing_env_def str_int_1)
  from save_failure_propagates [OF a1 a2 a3 a4 a5 a6, THEN conjunct1, rule_format, OF conjI [OF b1 conjI [OF b2 b3]]]
  have r1: "snd (check_releases iso_example (failing_env WriteFailed) (two_guild_world ?t)) = Some OSError
            \<and> mem (fst (check_releases iso_example (failing_env WriteFailed) (two_guild_world ?t))) = mem ?w2"
    by simp
  from save_failure_propagates [OF a1 a2 a3 a4 a5 a6, THEN conjunct2, rule_format,
      OF conjI [OF c1 conjI [OF c2 conjI [OF c3 conjI [OF c4 conjI [OF c5 c6]]]]]]
  have r2: "snd (check_releases iso_example (failing_env OpenFailed) (two_guild_world None)) = Some OSError
            \<and> mem (fst (check_releases iso_example (failing_env OpenFailed) (two_guild_world None)))
              = store_sdata (str_int 1) ''S1''
                  ((example_sdata None)\<lparr>last_seen_ts := Some (readableAt (last
                     [mk_chapter ''a'' ''10'' ''2024-05-02T00:00:00Z'',
                      mk_chapter ''b'' ''11'' ''2024-05-03T00:00:00Z'']))\<rparr>)
                  (mem (two_guild_world None))"
    by simp
  from r1 r2 show ?thesis
    by (simp add: str_int_1 store_sdata_def two_guild_world_def example_sdata_def mk_chapter_def)
qed

end
